theory Spec2Isabelle
  imports Complex_Main
begin

section \<open>Python values used by the scraper\<close>

text \<open>
  The scraper is a Python program. A Python \<open>str\<close> is modelled as a \<open>string\<close> whose
  characters are the code points below 256; an exception is a value of \<open>py_error\<close>, and a
  computation that may raise returns \<open>py_error + 'a\<close> with \<open>Inl\<close> for the raise.
\<close>

datatype py_error = AttributeError | ValueError | TypeError | KeyError

text \<open>Sequencing of two computations that may raise: the first raise wins.\<close>

definition bind_result :: "py_error + 'a \<Rightarrow> ('a \<Rightarrow> py_error + 'b) \<Rightarrow> py_error + 'b" where
  "bind_result r f = (case r of Inl e \<Rightarrow> Inl e | Inr v \<Rightarrow> f v)"

subsection \<open>String methods\<close>

text \<open>\<open>str.isspace\<close> on one character (code points 9-13, 28-32, 133 and 160).\<close>

definition py_isspace :: "char \<Rightarrow> bool" where
  "py_isspace c = (let n = (of_char c :: nat) in
     (9 \<le> n \<and> n \<le> 13) \<or> (28 \<le> n \<and> n \<le> 32) \<or> n = 133 \<or> n = 160)"

text \<open>\<open>s.strip()\<close>: leading and trailing whitespace removed.\<close>

definition strip :: "string \<Rightarrow> string" where
  "strip s = rev (dropWhile py_isspace (rev (dropWhile py_isspace s)))"

text \<open>\<open>s.replace(c, '')\<close> for a one-character \<open>c\<close>: every occurrence of \<open>c\<close> is deleted.\<close>

definition replace_empty :: "char \<Rightarrow> string \<Rightarrow> string" where
  "replace_empty c s = filter (\<lambda>x. x \<noteq> c) s"

text \<open>\<open>s.lower()\<close>: A-Z and the upper-case letters of Latin-1 (192-222 except 215).\<close>

definition lower_char :: "char \<Rightarrow> char" where
  "lower_char c = (let n = (of_char c :: nat) in
     if (65 \<le> n \<and> n \<le> 90) \<or> (192 \<le> n \<and> n \<le> 222 \<and> n \<noteq> 215)
     then char_of (n + 32) else c)"

definition lower :: "string \<Rightarrow> string" where
  "lower s = map lower_char s"

text \<open>\<open>sub in s\<close> on strings: \<open>sub\<close> occurs in \<open>s\<close> as a contiguous block.\<close>

fun contains :: "string \<Rightarrow> string \<Rightarrow> bool" where
  "contains sub [] = (sub = [])"
| "contains sub (c # cs) = (take (length sub) (c # cs) = sub \<or> contains sub cs)"

subsection \<open>The builtin \<open>float\<close> on a string\<close>

text \<open>
  A Python float is an IEEE binary64 number: a sign with a magnitude that binary64 holds
  exactly (minus zero is \<open>Finite True 0\<close>), an infinity, or the one NaN.
\<close>

datatype pyfloat = Finite bool rat | Infinity bool | NaN

text \<open>\<open>int.bit_length\<close> on a natural number.\<close>

fun bit_length :: "nat \<Rightarrow> nat" where
  "bit_length n = (if n = 0 then 0 else Suc (bit_length (n div 2)))"

declare bit_length.simps [simp del]

text \<open>\<open>2 ^ k \<le> a / b\<close> for an integer \<open>k\<close>, computed on naturals.\<close>

definition pow2_le :: "int \<Rightarrow> nat \<Rightarrow> nat \<Rightarrow> bool" where
  "pow2_le k a b = (if 0 \<le> k then b * 2 ^ nat k \<le> a else b \<le> a * 2 ^ nat (- k))"

text \<open>
  The binary64 number nearest to \<open>a / b\<close> (for \<open>b > 0\<close>), ties to the even mantissa, as
  the correctly rounded conversion of CPython gives it: 53 bits of mantissa, a least
  quantum of \<open>2 ^ -1074\<close>, and infinity from \<open>2 ^ 1024\<close> on.
\<close>

definition round_binary64 :: "bool \<Rightarrow> nat \<Rightarrow> nat \<Rightarrow> pyfloat" where
  "round_binary64 neg a b =
     (if a = 0 then Finite neg 0
      else
        let e0 = int (bit_length a) - int (bit_length b);
            e = (if pow2_le e0 a b then e0 else e0 - 1);
            p = max (e - 52) (- 1074);
            num = (if 0 \<le> p then a else a * 2 ^ nat (- p));
            den = (if 0 \<le> p then b * 2 ^ nat p else b);
            n0 = num div den;
            r = num mod den;
            n = (if den < 2 * r \<or> (2 * r = den \<and> odd n0) then n0 + 1 else n0)
        in if 0 \<le> p \<and> 2 ^ 1024 \<le> n * 2 ^ nat p then Infinity neg
           else Finite neg (if 0 \<le> p then of_nat (n * 2 ^ nat p)
                            else of_nat n / of_nat (2 ^ nat (- p))))"

definition is_digit :: "char \<Rightarrow> bool" where
  "is_digit c = (48 \<le> (of_char c :: nat) \<and> (of_char c :: nat) \<le> 57)"

definition digits_value :: "string \<Rightarrow> nat" where
  "digits_value ds = foldl (\<lambda>acc c. 10 * acc + (of_char c - 48)) 0 ds"

text \<open>
  The digits that continue a digit part, a single underscore being allowed between two
  digits; the result is the digits read (underscores dropped) and the rest of the input.
\<close>

fun scan_more :: "string \<Rightarrow> string \<times> string" where
  "scan_more (c # d # cs) =
     (if is_digit c then (case scan_more (d # cs) of (ds, r) \<Rightarrow> (c # ds, r))
      else if c = CHR ''_'' \<and> is_digit d then (case scan_more cs of (ds, r) \<Rightarrow> (d # ds, r))
      else ([], c # d # cs))"
| "scan_more [c] = (if is_digit c then ([c], []) else ([], [c]))"
| "scan_more [] = ([], [])"

definition digitpart :: "string \<Rightarrow> string \<times> string" where
  "digitpart s =
     (case s of
        [] \<Rightarrow> ([], s)
      | c # cs \<Rightarrow> if is_digit c then (case scan_more cs of (ds, r) \<Rightarrow> (c # ds, r)) else ([], s))"

definition take_sign :: "string \<Rightarrow> bool \<times> string" where
  "take_sign s =
     (case s of
        [] \<Rightarrow> (False, s)
      | c # cs \<Rightarrow> if c = CHR ''-'' then (True, cs) else if c = CHR ''+'' then (False, cs)
                 else (False, s))"

text \<open>The mantissa: integer digits, fraction digits and the rest; at least one digit.\<close>

definition parse_number :: "string \<Rightarrow> (string \<times> string \<times> string) option" where
  "parse_number s =
     (case digitpart s of (ip, r1) \<Rightarrow>
        (case r1 of
           [] \<Rightarrow> if ip = [] then None else Some (ip, [], r1)
         | c # r2 \<Rightarrow>
             if c = CHR ''.'' then
               (case digitpart r2 of (fp, r3) \<Rightarrow>
                  if ip = [] \<and> fp = [] then None else Some (ip, fp, r3))
             else if ip = [] then None else Some (ip, [], r1)))"

text \<open>The optional exponent: its value (0 when there is none) and the rest.\<close>

definition parse_exponent :: "string \<Rightarrow> (int \<times> string) option" where
  "parse_exponent s =
     (case s of
        [] \<Rightarrow> Some (0, s)
      | c # cs \<Rightarrow>
          if c = CHR ''e'' \<or> c = CHR ''E'' then
            (case take_sign cs of (neg, r1) \<Rightarrow>
               (case digitpart r1 of (ds, r2) \<Rightarrow>
                  if ds = [] then None
                  else Some (if neg then - int (digits_value ds) else int (digits_value ds), r2)))
          else Some (0, s))"

text \<open>The whitespace that \<open>float\<close> strips around its argument (9-13, 32, 133, 160).\<close>

definition float_isspace :: "char \<Rightarrow> bool" where
  "float_isspace c = (let n = (of_char c :: nat) in
     (9 \<le> n \<and> n \<le> 13) \<or> n = 32 \<or> n = 133 \<or> n = 160)"

definition ascii_lower :: "string \<Rightarrow> string" where
  "ascii_lower s = map (\<lambda>c. let n = (of_char c :: nat) in
     if 65 \<le> n \<and> n \<le> 90 then char_of (n + 32) else c) s"

text \<open>
  \<open>float(s)\<close>: surrounding whitespace is dropped, then a sign, then \<open>inf\<close>, \<open>infinity\<close>
  or \<open>nan\<close> in any case, or a decimal number with an optional exponent; the whole string
  must be used up, and anything else raises ValueError.
\<close>

definition py_float :: "string \<Rightarrow> py_error + pyfloat" where
  "py_float s =
     (let t = rev (dropWhile float_isspace (rev (dropWhile float_isspace s)))
      in case take_sign t of (neg, r) \<Rightarrow>
        if ascii_lower r = ''inf'' \<or> ascii_lower r = ''infinity'' then Inr (Infinity neg)
        else if ascii_lower r = ''nan'' then Inr NaN
        else
          (case parse_number r of
             None \<Rightarrow> Inl ValueError
           | Some (ip, fp, r1) \<Rightarrow>
               (case parse_exponent r1 of
                  None \<Rightarrow> Inl ValueError
                | Some (ex, r2) \<Rightarrow>
                    if r2 \<noteq> [] then Inl ValueError
                    else
                      let m = digits_value (ip @ fp);
                          k = ex - int (length fp)
                      in Inr (if 0 \<le> k then round_binary64 neg (m * 10 ^ nat k) 1
                              else round_binary64 neg m (10 ^ nat (- k))))))"

text \<open>\<open>str(i)\<close> on an integer: its decimal digits, with a minus sign when negative.\<close>

fun str_nat :: "nat \<Rightarrow> string" where
  "str_nat n = (if n < 10 then [''0123456789'' ! n]
                else str_nat (n div 10) @ [''0123456789'' ! (n mod 10)])"

declare str_nat.simps [simp del]

definition str_int :: "int \<Rightarrow> string" where
  "str_int i = (if i < 0 then CHR ''-'' # str_nat (nat (- i)) else str_nat (nat i))"

section \<open>Pages as the scraper queries them\<close>

text \<open>
  Parsing HTML is the work of a library. A parsed page is modelled by the answers to the
  selector queries that the scraper makes on it: \<open>select_one\<close> gives an element or
  \<open>None\<close>, an element has its \<open>.text\<close> and its attributes.
\<close>

record element =
  el_text :: string
  el_attrs :: "(string \<times> string) list"

text \<open>A product card, by the five \<open>select_one\<close> queries of the listing parser.\<close>

record card =
  product_name :: "element option"
  product_price :: "element option"
  product_description :: "element option"
  product_rating :: "element option"
  anchor :: "element option"

text \<open>
  A page: \<open>select('.product-card')\<close>, \<open>select_one('.breadcrumb a:last-child')\<close> and
  \<open>select_one('.stock-status')\<close>.
\<close>

record document =
  product_cards :: "card list"
  breadcrumb :: "element option"
  stock_status :: "element option"

text \<open>\<open>x.text\<close> on the result of \<open>select_one\<close>: \<open>None\<close> has no attribute \<open>text\<close>.\<close>

definition text_of :: "element option \<Rightarrow> py_error + string" where
  "text_of x = (case x of None \<Rightarrow> Inl AttributeError | Some e \<Rightarrow> Inr (el_text e))"

text \<open>
  \<open>x[key]\<close> on the result of \<open>select_one\<close>: \<open>None\<close> is not subscriptable (TypeError),
  and a tag without the attribute raises KeyError.
\<close>

definition item_of :: "element option \<Rightarrow> string \<Rightarrow> py_error + string" where
  "item_of x key =
     (case x of
        None \<Rightarrow> Inl TypeError
      | Some e \<Rightarrow> (case map_of (el_attrs e) key of None \<Rightarrow> Inl KeyError | Some v \<Rightarrow> Inr v))"

section \<open>The scraper\<close>

record product =
  name :: string
  price :: pyfloat
  description :: string
  rating :: pyfloat
  url :: string
  category :: "string option"
  in_stock :: bool

text \<open>
  The dict that \<open>_get_product_details\<close> returns: it has at most the keys \<open>category\<close>
  and \<open>in_stock\<close>; a key that is not set is \<open>None\<close> here.
\<close>

record details =
  details_category :: "string option"
  details_in_stock :: "bool option"

definition empty_details :: details where
  "empty_details = \<lparr>details_category = None, details_in_stock = None\<rparr>"

text \<open>
  The state of a \<open>WebScraper\<close>: its base URL and the list \<open>scraped_data\<close>. The field
  \<open>fetched\<close> records every call of \<open>fetch_page\<close>, in order, with the URL requested and
  whether the call came from the pagination loop or from the detail lookup.
\<close>

datatype origin = Listing | Detail

record scraper =
  base_url :: string
  scraped_data :: "product list"
  fetched :: "(origin \<times> string) list"

text \<open>
  The site answers a request for a URL, given the URLs requested before, with a page or
  with a failure of the request (\<open>None\<close>: \<open>requests.RequestException\<close> from \<open>get\<close> or
  \<open>raise_for_status\<close>). \<open>urljoin\<close> is a library function; it is a parameter that gives
  the joined URL or the exception it raises.
\<close>

type_synonym network = "string list \<Rightarrow> string \<Rightarrow> document option"

type_synonym joiner = "string \<Rightarrow> string \<Rightarrow> py_error + string"

definition WebScraper_init :: "string \<Rightarrow> scraper" where
  "WebScraper_init base = \<lparr>base_url = base, scraped_data = [], fetched = []\<rparr>"

text \<open>
  \<open>fetch_page\<close>: the request is made and recorded; a failed request is caught and gives
  \<open>None\<close>, a page is returned as it is (a \<open>BeautifulSoup\<close> object is always true).
\<close>

definition fetch_page :: "network \<Rightarrow> origin \<Rightarrow> string \<Rightarrow> scraper \<Rightarrow> document option \<times> scraper" where
  "fetch_page net who u s =
     (net (map snd (fetched s)) u, s\<lparr>fetched := fetched s @ [(who, u)]\<rparr>)"

text \<open>The body of the \<open>try\<close> in \<open>_get_product_details\<close>.\<close>

definition details_body :: "document \<Rightarrow> py_error + details" where
  "details_body soup =
     bind_result (text_of (breadcrumb soup)) (\<lambda>t1.
     bind_result (text_of (stock_status soup)) (\<lambda>t2.
       Inr \<lparr>details_category = Some (strip t1),
            details_in_stock = Some (contains ''in stock'' (lower (strip t2)))\<rparr>))"

definition get_product_details :: "network \<Rightarrow> string \<Rightarrow> scraper \<Rightarrow> (py_error + details) \<times> scraper" where
  "get_product_details net u s =
     (case fetch_page net Detail u s of (soup, s') \<Rightarrow>
        (case soup of
           None \<Rightarrow> (Inr empty_details, s')
         | Some doc \<Rightarrow>
             (case details_body doc of
                Inl e \<Rightarrow> if e = AttributeError then (Inr empty_details, s') else (Inl e, s')
              | Inr d \<Rightarrow> (Inr d, s'))))"

text \<open>
  The field extraction of one card, in the order of the source: name, price, description,
  rating and the resolved link.
\<close>

definition card_fields :: "joiner \<Rightarrow> string \<Rightarrow> card \<Rightarrow> py_error + (string \<times> pyfloat \<times> string \<times> pyfloat \<times> string)" where
  "card_fields urljoin base c =
     bind_result (text_of (product_name c)) (\<lambda>t1.
     bind_result (text_of (product_price c)) (\<lambda>t2.
     bind_result (py_float (replace_empty CHR ''$'' (strip t2))) (\<lambda>price_val.
     bind_result (text_of (product_description c)) (\<lambda>t3.
     bind_result (item_of (product_rating c) ''data-rating'') (\<lambda>rating_str.
     bind_result (py_float rating_str) (\<lambda>rating_val.
     bind_result (item_of (anchor c) ''href'') (\<lambda>relative_url.
     bind_result (urljoin base relative_url) (\<lambda>full_url.
       Inr (strip t1, price_val, strip t3, rating_val, full_url)))))))))"

text \<open>The \<open>Product(...)\<close> call: the parsed fields with the details merged in.\<close>

definition make_product :: "string \<times> pyfloat \<times> string \<times> pyfloat \<times> string \<Rightarrow> details \<Rightarrow> product" where
  "make_product f d =
     (case f of (n, p, ds, r, u) \<Rightarrow>
        \<lparr>name = n, price = p, description = ds, rating = r, url = u,
         category = details_category d,
         in_stock = (case details_in_stock d of None \<Rightarrow> True | Some b \<Rightarrow> b)\<rparr>)"

text \<open>The body of the \<open>try\<close> in \<open>_parse_product_listing\<close>, for one card.\<close>

definition parse_card :: "network \<Rightarrow> joiner \<Rightarrow> card \<Rightarrow> scraper \<Rightarrow> (py_error + product) \<times> scraper" where
  "parse_card net urljoin c s =
     (case card_fields urljoin (base_url s) c of
        Inl e \<Rightarrow> (Inl e, s)
      | Inr f \<Rightarrow>
          (case get_product_details net (snd (snd (snd (snd f)))) s of
             (Inl e, s') \<Rightarrow> (Inl e, s')
           | (Inr product_details, s') \<Rightarrow> (Inr (make_product f product_details), s')))"

text \<open>
  The loop over the cards: AttributeError and ValueError are caught and the loop goes on
  with the next card; any other exception leaves the loop.
\<close>

fun parse_cards :: "network \<Rightarrow> joiner \<Rightarrow> card list \<Rightarrow> product list \<Rightarrow> scraper \<Rightarrow> (py_error + product list) \<times> scraper" where
  "parse_cards net urljoin [] products s = (Inr products, s)"
| "parse_cards net urljoin (c # cs) products s =
     (case parse_card net urljoin c s of
        (Inr p, s') \<Rightarrow> parse_cards net urljoin cs (products @ [p]) s'
      | (Inl e, s') \<Rightarrow>
          if e = AttributeError \<or> e = ValueError then parse_cards net urljoin cs products s'
          else (Inl e, s'))"

definition parse_product_listing :: "network \<Rightarrow> joiner \<Rightarrow> document \<Rightarrow> scraper \<Rightarrow> (py_error + product list) \<times> scraper" where
  "parse_product_listing net urljoin soup s = parse_cards net urljoin (product_cards soup) [] s"

definition listing_url :: "string \<Rightarrow> string \<Rightarrow> int \<Rightarrow> string" where
  "listing_url base cat page =
     (if cat \<noteq> ''all'' then base @ ''/products/'' @ cat @ ''?page='' @ str_int page
      else base @ ''/products?page='' @ str_int page)"

text \<open>
  The \<open>while\<close> loop of \<open>scrape_products\<close>, from page \<open>page\<close> on. \<open>Inr ()\<close> is a normal
  return, \<open>Inl e\<close> an exception that leaves the method.
\<close>

function scrape_loop :: "network \<Rightarrow> joiner \<Rightarrow> string \<Rightarrow> int \<Rightarrow> int \<Rightarrow> scraper \<Rightarrow> (py_error + unit) \<times> scraper" where
  "scrape_loop net urljoin cat max_pages page s =
     (if page \<le> max_pages then
        (case fetch_page net Listing (listing_url (base_url s) cat page) s of
           (None, s1) \<Rightarrow> (Inr (), s1)
         | (Some soup, s1) \<Rightarrow>
             (case parse_product_listing net urljoin soup s1 of
                (Inl e, s2) \<Rightarrow> (Inl e, s2)
              | (Inr products, s2) \<Rightarrow>
                  if products = [] then (Inr (), s2)
                  else scrape_loop net urljoin cat max_pages (page + 1)
                         (s2\<lparr>scraped_data := scraped_data s2 @ products\<rparr>)))
      else (Inr (), s))"
  by pat_completeness auto
termination
  by (relation "measure (\<lambda>(net, urljoin, cat, max_pages, page, s). nat (max_pages + 1 - page))") auto

declare scrape_loop.simps [simp del]

definition scrape_products :: "network \<Rightarrow> joiner \<Rightarrow> string \<Rightarrow> int \<Rightarrow> scraper \<Rightarrow> (py_error + unit) \<times> scraper" where
  "scrape_products net urljoin cat max_pages s = scrape_loop net urljoin cat max_pages 1 s"

text \<open>The requests that the pagination loop made, in order.\<close>

definition listing_fetches :: "scraper \<Rightarrow> string list" where
  "listing_fetches s = map snd (filter (\<lambda>x. fst x = Listing) (fetched s))"

definition detail_fetches :: "scraper \<Rightarrow> string list" where
  "detail_fetches s = map snd (filter (\<lambda>x. fst x = Detail) (fetched s))"

section \<open>A sample site\<close>

text \<open>
  A small catalogue on which the theorems are tried: page 1 has two well-formed cards with
  a card without a price body between them, page 2 has one card, page 3 has none. The
  detail page of the first product has a breadcrumb and a stock status, the one of the
  second only a breadcrumb, and the request for the third fails. The base URL of the site
  is \<open>http://s\<close>, a scheme and a host without a path, and all links of the site are
  absolute paths: on such arguments \<open>urljoin\<close> gives the base followed by the link,
  and \<open>sample_urljoin\<close> is applied to no others.
\<close>

definition sample_urljoin :: joiner where
  "sample_urljoin base rel = Inr (base @ rel)"

definition sample_card :: "string \<Rightarrow> string \<Rightarrow> string \<Rightarrow> card" where
  "sample_card nm pr href =
     \<lparr>product_name = Some \<lparr>el_text = nm, el_attrs = []\<rparr>,
      product_price = Some \<lparr>el_text = pr, el_attrs = []\<rparr>,
      product_description = Some \<lparr>el_text = ''Handy'', el_attrs = []\<rparr>,
      product_rating = Some \<lparr>el_text = [], el_attrs = [(''data-rating'', ''4.5'')]\<rparr>,
      anchor = Some \<lparr>el_text = ''View'', el_attrs = [(''href'', href)]\<rparr>\<rparr>"

definition widget :: card where
  "widget = sample_card ''Widget'' ''$19.99'' ''/p/1''"

definition gadget :: card where
  "gadget = sample_card '' Gadget '' ''$5'' ''/p/2''"

definition gizmo :: card where
  "gizmo = sample_card ''Gizmo'' ''$7.5'' ''/p/3''"

definition no_price_body :: card where
  "no_price_body = sample_card ''Broken'' ''$'' ''/p/9''"

definition no_description :: card where
  "no_description = widget\<lparr>product_description := None\<rparr>"

definition no_rating :: card where
  "no_rating = widget\<lparr>product_rating := None\<rparr>"

definition bad_rating :: card where
  "bad_rating =
     widget\<lparr>product_rating := Some \<lparr>el_text = [], el_attrs = [(''data-rating'', ''n/a'')]\<rparr>\<rparr>"

definition listing_page :: "card list \<Rightarrow> document" where
  "listing_page cs = \<lparr>product_cards = cs, breadcrumb = None, stock_status = None\<rparr>"

definition detail_full :: document where
  "detail_full =
     \<lparr>product_cards = [],
      breadcrumb = Some \<lparr>el_text = '' Tools '', el_attrs = []\<rparr>,
      stock_status = Some \<lparr>el_text = ''Only 2 left. In Stock'', el_attrs = []\<rparr>\<rparr>"

definition detail_no_stock :: document where
  "detail_no_stock =
     \<lparr>product_cards = [],
      breadcrumb = Some \<lparr>el_text = ''Tools'', el_attrs = []\<rparr>,
      stock_status = None\<rparr>"

definition sample_site :: network where
  "sample_site h u =
     (if u = ''http://s/products?page=1'' then Some (listing_page [widget, no_price_body, gadget])
      else if u = ''http://s/products?page=2'' then Some (listing_page [gizmo])
      else if u = ''http://s/products?page=3'' then Some (listing_page [])
      else if u = ''http://s/p/1'' then Some detail_full
      else if u = ''http://s/p/2'' then Some detail_no_stock
      else None)"

text \<open>The records that the sample site yields.\<close>

definition widget_record :: product where
  "widget_record =
     \<lparr>name = ''Widget'', price = Finite False (5626684784446013 / 2 ^ 48),
      description = ''Handy'', rating = Finite False (9 / 2), url = ''http://s/p/1'',
      category = Some ''Tools'', in_stock = True\<rparr>"

definition gadget_record :: product where
  "gadget_record =
     \<lparr>name = ''Gadget'', price = Finite False 5,
      description = ''Handy'', rating = Finite False (9 / 2), url = ''http://s/p/2'',
      category = None, in_stock = True\<rparr>"

definition gizmo_record :: product where
  "gizmo_record =
     \<lparr>name = ''Gizmo'', price = Finite False (15 / 2),
      description = ''Handy'', rating = Finite False (9 / 2), url = ''http://s/p/3'',
      category = None, in_stock = True\<rparr>"

section \<open>Basic facts about the steps\<close>

lemma fetch_page_state:
  "snd (fetch_page net who u s) = s\<lparr>fetched := fetched s @ [(who, u)]\<rparr>"
  by (simp add: fetch_page_def)

lemma fetch_page_result:
  "fst (fetch_page net who u s) = net (map snd (fetched s)) u"
  by (simp add: fetch_page_def)

lemma details_body_cases:
  "details_body doc =
     (case breadcrumb doc of
        None \<Rightarrow> Inl AttributeError
      | Some b \<Rightarrow>
          (case stock_status doc of
             None \<Rightarrow> Inl AttributeError
           | Some st \<Rightarrow>
               Inr \<lparr>details_category = Some (strip (el_text b)),
                    details_in_stock = Some (contains ''in stock'' (lower (strip (el_text st))))\<rparr>))"
  by (simp add: details_body_def bind_result_def text_of_def split: option.splits)

lemma get_product_details_state:
  "snd (get_product_details net u s) = s\<lparr>fetched := fetched s @ [(Detail, u)]\<rparr>"
  by (simp add: get_product_details_def fetch_page_def details_body_cases split: option.splits)

lemma get_product_details_value:
  "fst (get_product_details net u s) =
     Inr (case net (map snd (fetched s)) u of
            None \<Rightarrow> empty_details
          | Some doc \<Rightarrow>
              (case breadcrumb doc of
                 None \<Rightarrow> empty_details
               | Some b \<Rightarrow>
                   (case stock_status doc of
                      None \<Rightarrow> empty_details
                    | Some st \<Rightarrow>
                        \<lparr>details_category = Some (strip (el_text b)),
                         details_in_stock = Some (contains ''in stock'' (lower (strip (el_text st))))\<rparr>)))"
  by (simp add: get_product_details_def fetch_page_def details_body_cases split: option.splits)

lemma parse_card_fail:
  "card_fields urljoin (base_url s) c = Inl e \<Longrightarrow> parse_card net urljoin c s = (Inl e, s)"
  by (simp add: parse_card_def)

lemma parse_card_ok:
  assumes "card_fields urljoin (base_url s) c = Inr f"
  shows "parse_card net urljoin c s =
           (Inr (make_product f (projr (fst (get_product_details net (snd (snd (snd (snd f)))) s)))),
            s\<lparr>fetched := fetched s @ [(Detail, snd (snd (snd (snd f))))]\<rparr>)"
proof -
  obtain r s' where g: "get_product_details net (snd (snd (snd (snd f)))) s = (r, s')"
    by (cases "get_product_details net (snd (snd (snd (snd f)))) s")
  from g have s': "s' = s\<lparr>fetched := fetched s @ [(Detail, snd (snd (snd (snd f))))]\<rparr>"
    using get_product_details_state [of net "snd (snd (snd (snd f)))" s] by simp
  from g obtain d where r: "r = Inr d"
    using get_product_details_value [of net "snd (snd (snd (snd f)))" s] by simp
  show ?thesis
    using assms g r s' by (simp add: parse_card_def)
qed

lemma parse_card_base_url: "base_url (snd (parse_card net urljoin c s)) = base_url s"
  by (cases "card_fields urljoin (base_url s) c") (simp_all add: parse_card_fail parse_card_ok)

lemma parse_card_scraped_data: "scraped_data (snd (parse_card net urljoin c s)) = scraped_data s"
  by (cases "card_fields urljoin (base_url s) c") (simp_all add: parse_card_fail parse_card_ok)

lemma parse_card_fetched:
  "\<exists>ds. fetched (snd (parse_card net urljoin c s)) = fetched s @ map (Pair Detail) ds"
proof (cases "card_fields urljoin (base_url s) c")
  case (Inl e)
  then have "fetched (snd (parse_card net urljoin c s)) = fetched s @ map (Pair Detail) []"
    by (simp add: parse_card_fail)
  then show ?thesis by blast
next
  case (Inr f)
  then have "fetched (snd (parse_card net urljoin c s)) =
      fetched s @ map (Pair Detail) [snd (snd (snd (snd f)))]"
    by (simp add: parse_card_ok)
  then show ?thesis by blast
qed

lemma parse_cards_base_url: "base_url (snd (parse_cards net urljoin cs acc s)) = base_url s"
proof (induction cs arbitrary: acc s)
  case Nil
  show ?case by simp
next
  case (Cons c cs)
  obtain r s' where pc: "parse_card net urljoin c s = (r, s')"
    by (cases "parse_card net urljoin c s")
  then have b: "base_url s' = base_url s"
    using parse_card_base_url [of net urljoin c s] by simp
  show ?case
    using pc b Cons.IH by (cases r) simp_all
qed

lemma parse_cards_scraped_data: "scraped_data (snd (parse_cards net urljoin cs acc s)) = scraped_data s"
proof (induction cs arbitrary: acc s)
  case Nil
  show ?case by simp
next
  case (Cons c cs)
  obtain r s' where pc: "parse_card net urljoin c s = (r, s')"
    by (cases "parse_card net urljoin c s")
  then have b: "scraped_data s' = scraped_data s"
    using parse_card_scraped_data [of net urljoin c s] by simp
  show ?case
    using pc b Cons.IH by (cases r) simp_all
qed

lemma parse_cards_fetched:
  "\<exists>ds. fetched (snd (parse_cards net urljoin cs acc s)) = fetched s @ map (Pair Detail) ds"
proof (induction cs arbitrary: acc s)
  case Nil
  have "fetched (snd (parse_cards net urljoin [] acc s)) = fetched s @ map (Pair Detail) []"
    by simp
  then show ?case by blast
next
  case (Cons c cs)
  obtain r s' where pc: "parse_card net urljoin c s = (r, s')"
    by (cases "parse_card net urljoin c s")
  obtain d1 where d1: "fetched s' = fetched s @ map (Pair Detail) d1"
    using parse_card_fetched [of net urljoin c s] pc by auto
  show ?case
  proof (cases "\<exists>e. r = Inl e \<and> e \<noteq> AttributeError \<and> e \<noteq> ValueError")
    case True
    then obtain e where "parse_cards net urljoin (c # cs) acc s = (Inl e, s')"
      using pc by auto
    then have "fetched (snd (parse_cards net urljoin (c # cs) acc s)) = fetched s @ map (Pair Detail) d1"
      using d1 by simp
    then show ?thesis by blast
  next
    case False
    then obtain acc' where step: "parse_cards net urljoin (c # cs) acc s = parse_cards net urljoin cs acc' s'"
      using pc by (cases r) auto
    obtain d2 where "fetched (snd (parse_cards net urljoin cs acc' s')) = fetched s' @ map (Pair Detail) d2"
      using Cons.IH by blast
    then have "fetched (snd (parse_cards net urljoin (c # cs) acc s)) = fetched s @ map (Pair Detail) (d1 @ d2)"
      using step d1 by simp
    then show ?thesis by blast
  qed
qed

section \<open>The sample site, evaluated\<close>

lemmas float_defs = py_float_def take_sign_def parse_number_def parse_exponent_def digitpart_def
  is_digit_def digits_value_def float_isspace_def ascii_lower_def round_binary64_def pow2_le_def
  bit_length.simps Let_def

lemma float_19_99: "py_float ''19.99'' = Inr (Finite False (5626684784446013 / 2 ^ 48))"
  by (simp add: float_defs)

lemma float_5: "py_float ''5'' = Inr (Finite False 5)"
  by (simp add: float_defs)

lemma float_7_5: "py_float ''7.5'' = Inr (Finite False (15 / 2))"
  by (simp add: float_defs)

lemma float_4_5: "py_float ''4.5'' = Inr (Finite False (9 / 2))"
  by (simp add: float_defs)

lemma float_empty: "py_float [] = Inl ValueError"
  by (simp add: float_defs)

lemmas card_defs = card_fields_def bind_result_def text_of_def item_of_def sample_card_def
  sample_urljoin_def strip_def py_isspace_def replace_empty_def

lemma widget_fields:
  "card_fields sample_urljoin ''http://s'' widget =
     Inr (''Widget'', Finite False (5626684784446013 / 2 ^ 48), ''Handy'', Finite False (9 / 2), ''http://s/p/1'')"
  by (simp add: widget_def card_defs float_19_99 float_4_5)

lemma gadget_fields:
  "card_fields sample_urljoin ''http://s'' gadget =
     Inr (''Gadget'', Finite False 5, ''Handy'', Finite False (9 / 2), ''http://s/p/2'')"
  by (simp add: gadget_def card_defs float_5 float_4_5)

lemma gizmo_fields:
  "card_fields sample_urljoin ''http://s'' gizmo =
     Inr (''Gizmo'', Finite False (15 / 2), ''Handy'', Finite False (9 / 2), ''http://s/p/3'')"
  by (simp add: gizmo_def card_defs float_7_5 float_4_5)

lemma no_price_body_fields: "card_fields sample_urljoin ''http://s'' no_price_body = Inl ValueError"
  by (simp add: no_price_body_def card_defs float_empty)

lemma no_description_fields: "card_fields sample_urljoin ''http://s'' no_description = Inl AttributeError"
  by (simp add: no_description_def widget_def card_defs float_19_99)

lemma no_rating_fields: "card_fields sample_urljoin ''http://s'' no_rating = Inl TypeError"
  by (simp add: no_rating_def widget_def card_defs float_19_99)

lemma detail_full_body:
  "details_body detail_full = Inr \<lparr>details_category = Some ''Tools'', details_in_stock = Some True\<rparr>"
  by (simp add: details_body_cases detail_full_def strip_def py_isspace_def lower_def
      lower_char_def char_of_def bit_0)

lemma detail_no_stock_body: "details_body detail_no_stock = Inl AttributeError"
  by (simp add: details_body_cases detail_no_stock_def)

lemmas run_defs = parse_card_def get_product_details_def fetch_page_def sample_site_def
  make_product_def empty_details_def detail_full_body detail_no_stock_body
  widget_fields gadget_fields gizmo_fields no_price_body_fields no_description_fields
  no_rating_fields

lemma sample_page1:
  "parse_cards sample_site sample_urljoin [widget, no_price_body, gadget] []
     \<lparr>base_url = ''http://s'', scraped_data = d, fetched = h\<rparr> =
   (Inr [widget_record, gadget_record],
    \<lparr>base_url = ''http://s'', scraped_data = d, fetched = h @ [(Detail, ''http://s/p/1''), (Detail, ''http://s/p/2'')]\<rparr>)"
  by (simp add: run_defs widget_record_def gadget_record_def)

lemma sample_page2:
  "parse_cards sample_site sample_urljoin [gizmo] []
     \<lparr>base_url = ''http://s'', scraped_data = d, fetched = h\<rparr> =
   (Inr [gizmo_record],
    \<lparr>base_url = ''http://s'', scraped_data = d, fetched = h @ [(Detail, ''http://s/p/3'')]\<rparr>)"
  by (simp add: run_defs gizmo_record_def)

lemma sample_urls:
  "listing_url ''http://s'' ''all'' 1 = ''http://s/products?page=1''"
  "listing_url ''http://s'' ''all'' 2 = ''http://s/products?page=2''"
  "listing_url ''http://s'' ''all'' 3 = ''http://s/products?page=3''"
  by (simp_all add: listing_url_def str_int_def str_nat.simps)

lemma parse_cards_Nil: "parse_cards net urljoin [] acc s = (Inr acc, s)"
  by simp

lemma sample_run:
  "scrape_products sample_site sample_urljoin ''all'' 3
     \<lparr>base_url = ''http://s'', scraped_data = d, fetched = []\<rparr> =
   (Inr (),
    \<lparr>base_url = ''http://s'', scraped_data = d @ [widget_record, gadget_record, gizmo_record],
     fetched = [(Listing, ''http://s/products?page=1''), (Detail, ''http://s/p/1''), (Detail, ''http://s/p/2''),
                (Listing, ''http://s/products?page=2''), (Detail, ''http://s/p/3''),
                (Listing, ''http://s/products?page=3'')]\<rparr>)"
  by (simp add: scrape_products_def scrape_loop.simps sample_urls fetch_page_def sample_site_def
      parse_product_listing_def listing_page_def sample_page1 sample_page2
      parse_cards_Nil del: parse_cards.simps)


lemma parse_cards_single:
  "parse_cards net urljoin [c] acc s =
     (case card_fields urljoin (base_url s) c of
        Inl e \<Rightarrow> if e = AttributeError \<or> e = ValueError then (Inr acc, s) else (Inl e, s)
      | Inr f \<Rightarrow>
          (Inr (acc @ [make_product f (projr (fst (get_product_details net (snd (snd (snd (snd f)))) s)))]),
           s\<lparr>fetched := fetched s @ [(Detail, snd (snd (snd (snd f))))]\<rparr>))"
  by (simp add: parse_card_fail parse_card_ok split: sum.split)

section \<open>The listing parser\<close>



lemma parse_cards_single_added_iff:
  "(\<exists>p. fst (parse_cards net urljoin [c] acc s) = Inr (acc @ [p])) \<longleftrightarrow>
   (\<exists>f. card_fields urljoin (base_url s) c = Inr f)"
  by (cases "card_fields urljoin (base_url s) c") (auto simp add: parse_cards_single simp del: parse_cards.simps)


lemma make_product_fields:
  "make_product (n, p, ds, r, u) d =
     \<lparr>name = n, price = p, description = ds, rating = r, url = u,
      category = details_category d,
      in_stock = (case details_in_stock d of None \<Rightarrow> True | Some b \<Rightarrow> b)\<rparr>"
  by (simp add: make_product_def)

lemma float_n_a: "py_float ''n/a'' = Inl ValueError"
  by (simp add: float_defs char_of_def bit_0)

lemma bad_rating_fields: "card_fields sample_urljoin ''http://s'' bad_rating = Inl ValueError"
  by (simp add: bad_rating_def widget_def card_defs float_19_99 float_n_a)

lemma price_text_19_99:
  "py_float (replace_empty CHR ''$'' (strip ''$19.99'')) = Inr (Finite False (5626684784446013 / 2 ^ 48))"
  by (simp add: replace_empty_def strip_def py_isspace_def float_19_99)

section \<open>The detail lookup and its defaults\<close>

text \<open>
  C2 (as amended). The two detail fields are extracted together, not independently. The
  lookup returns a value and never raises; when the request fails, or the breadcrumb or
  the stock status is absent, the returned details are empty (both keys omitted, also
  the one whose element is present); when both elements are present, both keys are set:
  the category to the stripped breadcrumb text and \<open>in_stock\<close> to whether the stripped,
  lower-cased status text contains \<open>in stock\<close>.
\<close>

theorem details_all_or_nothing:
  "(\<exists>d. fst (get_product_details net u s) = Inr d) \<and>
   (net (map snd (fetched s)) u = None \<longrightarrow>
      fst (get_product_details net u s) = Inr empty_details) \<and>
   (net (map snd (fetched s)) u = Some doc \<and>
      (breadcrumb doc = None \<or> stock_status doc = None) \<longrightarrow>
      fst (get_product_details net u s) = Inr empty_details) \<and>
   (net (map snd (fetched s)) u = Some doc \<and>
      breadcrumb doc = Some b \<and> stock_status doc = Some st \<longrightarrow>
      fst (get_product_details net u s) =
        Inr \<lparr>details_category = Some (strip (el_text b)),
             details_in_stock = Some (contains ''in stock'' (lower (strip (el_text st))))\<rparr>)"
  by (auto simp add: get_product_details_value split: option.split)

theorem details_all_or_nothing_witness:
  "fst (get_product_details sample_site ''http://s/p/9'' (WebScraper_init ''http://s'')) = Inr empty_details \<and>
   fst (get_product_details sample_site ''http://s/p/2'' (WebScraper_init ''http://s'')) = Inr empty_details \<and>
   fst (get_product_details sample_site ''http://s/p/1'' (WebScraper_init ''http://s'')) =
     Inr \<lparr>details_category = Some ''Tools'', details_in_stock = Some True\<rparr>"
proof -
  let ?s = "WebScraper_init ''http://s''"
  have h9: "sample_site (map snd (fetched ?s)) ''http://s/p/9'' = None"
    by (simp add: sample_site_def)
  have h2: "sample_site (map snd (fetched ?s)) ''http://s/p/2'' = Some detail_no_stock \<and>
      (breadcrumb detail_no_stock = None \<or> stock_status detail_no_stock = None)"
    by (simp add: sample_site_def detail_no_stock_def)
  have h1: "sample_site (map snd (fetched ?s)) ''http://s/p/1'' = Some detail_full \<and>
      breadcrumb detail_full = Some \<lparr>el_text = '' Tools '', el_attrs = []\<rparr> \<and>
      stock_status detail_full = Some \<lparr>el_text = ''Only 2 left. In Stock'', el_attrs = []\<rparr>"
    by (simp add: sample_site_def detail_full_def)
  have e: "strip (el_text \<lparr>el_text = '' Tools '', el_attrs = []\<rparr>) = ''Tools'' \<and>
      contains ''in stock''
        (lower (strip (el_text \<lparr>el_text = ''Only 2 left. In Stock'', el_attrs = []\<rparr>)))"
    by (simp add: strip_def py_isspace_def lower_def lower_char_def char_of_def bit_0)
  have 1: "fst (get_product_details sample_site ''http://s/p/9'' ?s) = Inr empty_details"
    using details_all_or_nothing [of sample_site "''http://s/p/9''" ?s] h9 by blast
  have 2: "fst (get_product_details sample_site ''http://s/p/2'' ?s) = Inr empty_details"
    using details_all_or_nothing [of sample_site "''http://s/p/2''" ?s detail_no_stock] h2 by blast
  have 3: "fst (get_product_details sample_site ''http://s/p/1'' ?s) =
      Inr \<lparr>details_category = Some ''Tools'', details_in_stock = Some True\<rparr>"
    using details_all_or_nothing [of sample_site "''http://s/p/1''" ?s detail_full
        "\<lparr>el_text = '' Tools '', el_attrs = []\<rparr>"
        "\<lparr>el_text = ''Only 2 left. In Stock'', el_attrs = []\<rparr>"] h1 e
    by simp
  from 1 2 3 show ?thesis by blast
qed

text \<open>
  The claim as stated fails on the second detail page of the sample site: its breadcrumb
  is present and only its stock status is absent, and still no category is returned.
\<close>

theorem breadcrumb_alone_gives_no_category:
  "sample_site [] ''http://s/p/2'' = Some detail_no_stock \<and>
   breadcrumb detail_no_stock = Some \<lparr>el_text = ''Tools'', el_attrs = []\<rparr> \<and>
   stock_status detail_no_stock = None \<and>
   fst (get_product_details sample_site ''http://s/p/2'' (WebScraper_init ''http://s'')) =
     Inr \<lparr>details_category = None, details_in_stock = None\<rparr>"
  by (simp add: get_product_details_def fetch_page_def WebScraper_init_def sample_site_def
      detail_no_stock_body empty_details_def)
    (simp add: detail_no_stock_def)

text \<open>
  C6. A card whose listing fields parse yields a record whatever the detail page does:
  when the detail request fails, or the detail page lacks the breadcrumb or the stock
  status (so that the enrichment is empty), the record has no category and \<open>in_stock\<close>
  is true.
\<close>

theorem detail_failure_gives_defaults:
  assumes "card_fields urljoin (base_url s) c = Inr (n, p, ds, r, u)"
    and "net (map snd (fetched s)) u = None \<or>
         (\<exists>doc. net (map snd (fetched s)) u = Some doc \<and>
                (breadcrumb doc = None \<or> stock_status doc = None))"
  shows "fst (parse_card net urljoin c s) =
           Inr \<lparr>name = n, price = p, description = ds, rating = r, url = u,
                category = None, in_stock = True\<rparr>"
proof -
  have "fst (get_product_details net u s) = Inr empty_details"
    using assms(2) by (auto simp add: get_product_details_value split: option.split)
  then show ?thesis
    using assms(1) by (simp add: parse_card_ok make_product_fields empty_details_def)
qed

theorem detail_failure_gives_defaults_witness:
  "fst (parse_card sample_site sample_urljoin gizmo (WebScraper_init ''http://s'')) = Inr gizmo_record \<and>
   fst (parse_card sample_site sample_urljoin gadget (WebScraper_init ''http://s'')) = Inr gadget_record \<and>
   category gizmo_record = None \<and> in_stock gizmo_record \<and>
   category gadget_record = None \<and> in_stock gadget_record"
proof -
  let ?s = "WebScraper_init ''http://s''"
  have b: "base_url ?s = ''http://s''"
    by (simp add: WebScraper_init_def)
  have f3: "card_fields sample_urljoin (base_url ?s) gizmo =
      Inr (''Gizmo'', Finite False (15 / 2), ''Handy'', Finite False (9 / 2), ''http://s/p/3'')"
    by (simp only: b gizmo_fields)
  have f2: "card_fields sample_urljoin (base_url ?s) gadget =
      Inr (''Gadget'', Finite False 5, ''Handy'', Finite False (9 / 2), ''http://s/p/2'')"
    by (simp only: b gadget_fields)
  have n3: "sample_site (map snd (fetched ?s)) ''http://s/p/3'' = None \<or>
      (\<exists>doc. sample_site (map snd (fetched ?s)) ''http://s/p/3'' = Some doc \<and>
             (breadcrumb doc = None \<or> stock_status doc = None))"
    by (simp add: sample_site_def)
  have n2: "sample_site (map snd (fetched ?s)) ''http://s/p/2'' = None \<or>
      (\<exists>doc. sample_site (map snd (fetched ?s)) ''http://s/p/2'' = Some doc \<and>
             (breadcrumb doc = None \<or> stock_status doc = None))"
    by (simp add: sample_site_def detail_no_stock_def)
  have 1: "fst (parse_card sample_site sample_urljoin gizmo ?s) = Inr gizmo_record"
    using detail_failure_gives_defaults [where net = sample_site, OF f3 n3] by (simp add: gizmo_record_def)
  have 2: "fst (parse_card sample_site sample_urljoin gadget ?s) = Inr gadget_record"
    using detail_failure_gives_defaults [where net = sample_site, OF f2 n2] by (simp add: gadget_record_def)
  show ?thesis
    using 1 2 by (simp add: gizmo_record_def gadget_record_def)
qed

text \<open>
  C8. The details depend on the content of the detail page alone: two lookups whose
  requests are answered alike return the same details, whatever the URL, the state of
  the scraper or the requests made before. Merging the same details again leaves a
  record as it is, both when the record is built anew from its own fields and when the
  two merged fields are set once more.
\<close>

theorem enrichment_deterministic_merge_idempotent:
  "(net (map snd (fetched s)) u = net' (map snd (fetched s')) u' \<longrightarrow>
      fst (get_product_details net u s) = fst (get_product_details net' u' s')) \<and>
   make_product (name (make_product f d), price (make_product f d),
       description (make_product f d), rating (make_product f d), url (make_product f d)) d =
     make_product f d \<and>
   (make_product f d)\<lparr>category := details_category d,
       in_stock := (case details_in_stock d of None \<Rightarrow> True | Some b \<Rightarrow> b)\<rparr> =
     make_product f d"
proof (intro conjI impI)
  assume "net (map snd (fetched s)) u = net' (map snd (fetched s')) u'"
  then show "fst (get_product_details net u s) = fst (get_product_details net' u' s')"
    by (simp add: get_product_details_value)
next
  show "make_product (name (make_product f d), price (make_product f d),
       description (make_product f d), rating (make_product f d), url (make_product f d)) d =
     make_product f d"
    by (cases f) (simp add: make_product_def)
next
  show "(make_product f d)\<lparr>category := details_category d,
       in_stock := (case details_in_stock d of None \<Rightarrow> True | Some b \<Rightarrow> b)\<rparr> =
     make_product f d"
    by (cases f) (simp add: make_product_def)
qed

theorem enrichment_deterministic_witness:
  "fst (get_product_details sample_site ''http://s/p/1'' (WebScraper_init ''http://s'')) =
     fst (get_product_details (\<lambda>h u. Some detail_full) ''http://t/q''
            \<lparr>base_url = ''http://t'', scraped_data = [widget_record], fetched = [(Listing, ''http://t/l'')]\<rparr>) \<and>
   widget_record\<lparr>category := Some ''Tools'', in_stock := True\<rparr> = widget_record"
proof -
  let ?s = "WebScraper_init ''http://s''"
  let ?t = "\<lparr>base_url = ''http://t'', scraped_data = [widget_record], fetched = [(Listing, ''http://t/l'')]\<rparr>"
  let ?f = "(''Widget'', Finite False (5626684784446013 / 2 ^ 48), ''Handy'', Finite False (9 / 2), ''http://s/p/1'')"
  let ?d = "\<lparr>details_category = Some ''Tools'', details_in_stock = Some True\<rparr>"
  note t = enrichment_deterministic_merge_idempotent
    [of sample_site ?s "''http://s/p/1''" "\<lambda>h u. Some detail_full" ?t "''http://t/q''" ?f ?d]
  have same: "sample_site (map snd (fetched ?s)) ''http://s/p/1'' =
      (\<lambda>h u. Some detail_full) (map snd (fetched ?t)) ''http://t/q''"
    by (simp add: sample_site_def)
  have m: "make_product ?f ?d = widget_record"
    by (simp add: make_product_def widget_record_def)
  have 1: "fst (get_product_details sample_site ''http://s/p/1'' ?s) =
      fst (get_product_details (\<lambda>h u. Some detail_full) ''http://t/q'' ?t)"
    using t same by blast
  have 2: "widget_record\<lparr>category := Some ''Tools'', in_stock := True\<rparr> = widget_record"
    using t m by simp
  from 1 2 show ?thesis by blast
qed

section \<open>The pagination loop\<close>

text \<open>
  C10. With a page limit of zero or less the loop body is never entered: the call
  returns at once, no request is made and the state of the scraper, its list of records
  included, is the one before the call.
\<close>

theorem no_pages_no_effect:
  assumes "max_pages \<le> 0"
  shows "scrape_products net urljoin cat max_pages s = (Inr (), s)"
  using assms by (simp add: scrape_products_def scrape_loop.simps)

theorem no_pages_no_effect_witness:
  "scrape_products sample_site sample_urljoin ''all'' 0 (WebScraper_init ''http://s'') =
     (Inr (), WebScraper_init ''http://s'') \<and>
   scrape_products sample_site sample_urljoin ''tools'' (- 2)
     \<lparr>base_url = ''http://s'', scraped_data = [widget_record], fetched = [(Listing, ''http://s/products?page=1'')]\<rparr> =
     (Inr (), \<lparr>base_url = ''http://s'', scraped_data = [widget_record],
               fetched = [(Listing, ''http://s/products?page=1'')]\<rparr>)"
proof -
  have z: "(0::int) \<le> 0" and m: "(- 2::int) \<le> 0"
    by simp_all
  show ?thesis
    using no_pages_no_effect [OF z, of sample_site sample_urljoin "''all''" "WebScraper_init ''http://s''"]
      no_pages_no_effect [OF m, of sample_site sample_urljoin "''tools''"
        "\<lparr>base_url = ''http://s'', scraped_data = [widget_record], fetched = [(Listing, ''http://s/products?page=1'')]\<rparr>"]
    by simp
qed

lemma parse_product_listing_base_url:
  "base_url (snd (parse_product_listing net urljoin soup s)) = base_url s"
  by (simp add: parse_product_listing_def parse_cards_base_url)

lemma parse_product_listing_scraped_data:
  "scraped_data (snd (parse_product_listing net urljoin soup s)) = scraped_data s"
  by (simp add: parse_product_listing_def parse_cards_scraped_data)

lemma parse_product_listing_fetched:
  "\<exists>ds. fetched (snd (parse_product_listing net urljoin soup s)) = fetched s @ map (Pair Detail) ds"
  by (simp add: parse_product_listing_def parse_cards_fetched)

lemma parse_product_listing_listing_fetches:
  "listing_fetches (snd (parse_product_listing net urljoin soup s)) = listing_fetches s"
proof -
  obtain ds where "fetched (snd (parse_product_listing net urljoin soup s)) =
      fetched s @ map (Pair Detail) ds"
    using parse_product_listing_fetched by blast
  then show ?thesis
    by (simp add: listing_fetches_def filter_map comp_def)
qed

text \<open>One turn of the loop, with the state after the request for the listing named.\<close>

lemma scrape_loop_turn:
  assumes "page \<le> max_pages"
    and "s1 = s\<lparr>fetched := fetched s @ [(Listing, listing_url (base_url s) cat page)]\<rparr>"
  shows "scrape_loop net urljoin cat max_pages page s =
     (case net (map snd (fetched s)) (listing_url (base_url s) cat page) of
        None \<Rightarrow> (Inr (), s1)
      | Some soup \<Rightarrow>
          (case fst (parse_product_listing net urljoin soup s1) of
             Inl e \<Rightarrow> (Inl e, snd (parse_product_listing net urljoin soup s1))
           | Inr products \<Rightarrow>
               if products = [] then (Inr (), snd (parse_product_listing net urljoin soup s1))
               else scrape_loop net urljoin cat max_pages (page + 1)
                      ((snd (parse_product_listing net urljoin soup s1))
                         \<lparr>scraped_data :=
                            scraped_data (snd (parse_product_listing net urljoin soup s1)) @ products\<rparr>)))"
  using assms
  by (subst scrape_loop.simps)
    (simp add: fetch_page_def split: option.split sum.split prod.split)

lemma scrape_loop_done:
  "\<not> page \<le> max_pages \<Longrightarrow> scrape_loop net urljoin cat max_pages page s = (Inr (), s)"
  by (subst scrape_loop.simps) simp

lemma scrape_loop_listing_fetches:
  "\<exists>k. page - 1 \<le> k \<and> k \<le> max (page - 1) max_pages \<and>
       listing_fetches (snd (scrape_loop net urljoin cat max_pages page s)) =
         listing_fetches s @ map (listing_url (base_url s) cat) [page..k]"
proof (induction net urljoin cat max_pages page s rule: scrape_loop.induct)
  case (1 net urljoin cat max_pages page s)
  let ?u = "listing_url (base_url s) cat page"
  let ?s1 = "s\<lparr>fetched := fetched s @ [(Listing, ?u)]\<rparr>"
  let ?goal = "\<lambda>k. page - 1 \<le> k \<and> k \<le> max (page - 1) max_pages \<and>
       listing_fetches (snd (scrape_loop net urljoin cat max_pages page s)) =
         listing_fetches s @ map (listing_url (base_url s) cat) [page..k]"
  have l1: "listing_fetches ?s1 = listing_fetches s @ [?u]"
    by (simp add: listing_fetches_def)
  have single: "map (listing_url (base_url s) cat) [page..page] = [?u]"
    by simp
  show ?case
  proof (cases "page \<le> max_pages")
    case False
    then have "?goal (page - 1)"
      by (simp add: scrape_loop_done)
    then show ?thesis by blast
  next
    case le: True
    note turn = scrape_loop_turn [OF le refl, of net urljoin cat s]
    show ?thesis
    proof (cases "net (map snd (fetched s)) ?u")
      case None
      then have "?goal page"
        using le turn l1 by simp
      then show ?thesis by blast
    next
      case (Some soup)
      let ?r = "fst (parse_product_listing net urljoin soup ?s1)"
      let ?s2 = "snd (parse_product_listing net urljoin soup ?s1)"
      have l2: "listing_fetches ?s2 = listing_fetches s @ [?u]"
        using parse_product_listing_listing_fetches [of net urljoin soup ?s1] l1 by simp
      have b2: "base_url ?s2 = base_url s"
        by (simp add: parse_product_listing_base_url)
      show ?thesis
      proof (cases "\<exists>products. ?r = Inr products \<and> products \<noteq> []")
        case False
        then have "snd (scrape_loop net urljoin cat max_pages page s) = ?s2"
          using turn Some by (cases ?r) auto
        then have "?goal page"
          using le l2 by simp
        then show ?thesis by blast
      next
        case True
        then obtain products where p: "?r = Inr products" "products \<noteq> []"
          by blast
        let ?s3 = "?s2\<lparr>scraped_data := scraped_data ?s2 @ products\<rparr>"
        have step: "scrape_loop net urljoin cat max_pages page s =
            scrape_loop net urljoin cat max_pages (page + 1) ?s3"
          using turn Some p by simp
        have "\<exists>k. page + 1 - 1 \<le> k \<and> k \<le> max (page + 1 - 1) max_pages \<and>
            listing_fetches (snd (scrape_loop net urljoin cat max_pages (page + 1) ?s3)) =
              listing_fetches ?s3 @ map (listing_url (base_url ?s3) cat) [page + 1..k]"
        proof (rule "1.IH" [OF le])
          show "(Some soup, ?s1) = fetch_page net Listing ?u s"
            using Some by (simp add: fetch_page_def)
          show "(?r, ?s2) = parse_product_listing net urljoin soup ?s1"
            by simp
          show "?r = Inr products"
            by (rule p(1))
          show "products \<noteq> []"
            by (rule p(2))
        qed simp
        then obtain k where k: "page \<le> k" "k \<le> max_pages"
          and lk: "listing_fetches (snd (scrape_loop net urljoin cat max_pages (page + 1) ?s3)) =
              listing_fetches ?s3 @ map (listing_url (base_url ?s3) cat) [page + 1..k]"
          using le by auto
        have l3: "listing_fetches ?s3 = listing_fetches s @ [?u]"
          using l2 by (simp add: listing_fetches_def)
        have "[page..k] = page # [page + 1..k]"
          using k(1) by (simp add: upto_rec1)
        then have "?goal k"
          using k step lk l3 b2 by simp
        then show ?thesis by blast
      qed
    qed
  qed
qed

text \<open>
  A proof rule for the loop: a property of its result holds when it holds for each of
  the four ways a turn can go (limit reached, request failed, page without products or an
  exception that escapes, page with products and the loop goes on).
\<close>

lemma scrape_loop_cases [case_names limit failed stopped continued]:
  assumes limit: "\<And>page s. \<not> page \<le> max_pages \<Longrightarrow> Q page s (Inr (), s)"
    and failed: "\<And>page s s1. page \<le> max_pages \<Longrightarrow>
        s1 = s\<lparr>fetched := fetched s @ [(Listing, listing_url (base_url s) cat page)]\<rparr> \<Longrightarrow>
        net (map snd (fetched s)) (listing_url (base_url s) cat page) = None \<Longrightarrow>
        Q page s (Inr (), s1)"
    and stopped: "\<And>page s s1 soup r s2. page \<le> max_pages \<Longrightarrow>
        s1 = s\<lparr>fetched := fetched s @ [(Listing, listing_url (base_url s) cat page)]\<rparr> \<Longrightarrow>
        net (map snd (fetched s)) (listing_url (base_url s) cat page) = Some soup \<Longrightarrow>
        parse_product_listing net urljoin soup s1 = (r, s2) \<Longrightarrow>
        r = Inr [] \<or> (\<exists>e. r = Inl e) \<Longrightarrow>
        Q page s (case r of Inl e \<Rightarrow> Inl e | Inr products \<Rightarrow> Inr (), s2)"
    and continued: "\<And>page s s1 soup products s2 s3. page \<le> max_pages \<Longrightarrow>
        s1 = s\<lparr>fetched := fetched s @ [(Listing, listing_url (base_url s) cat page)]\<rparr> \<Longrightarrow>
        net (map snd (fetched s)) (listing_url (base_url s) cat page) = Some soup \<Longrightarrow>
        parse_product_listing net urljoin soup s1 = (Inr products, s2) \<Longrightarrow>
        products \<noteq> [] \<Longrightarrow>
        s3 = s2\<lparr>scraped_data := scraped_data s2 @ products\<rparr> \<Longrightarrow>
        Q (page + 1) s3 (scrape_loop net urljoin cat max_pages (page + 1) s3) \<Longrightarrow>
        Q page s (scrape_loop net urljoin cat max_pages (page + 1) s3)"
  shows "Q page s (scrape_loop net urljoin cat max_pages page s)"
  using assms
proof (induction net urljoin cat max_pages page s rule: scrape_loop.induct)
  case (1 net urljoin cat max_pages page s)
  let ?u = "listing_url (base_url s) cat page"
  let ?s1 = "s\<lparr>fetched := fetched s @ [(Listing, ?u)]\<rparr>"
  show ?case
  proof (cases "page \<le> max_pages")
    case False
    then show ?thesis
      using "1.prems"(1) by (simp add: scrape_loop_done)
  next
    case le: True
    note turn = scrape_loop_turn [OF le refl, of net urljoin cat s]
    show ?thesis
    proof (cases "net (map snd (fetched s)) ?u")
      case None
      then show ?thesis
        using "1.prems"(2) [OF le refl None] turn by simp
    next
      case (Some soup)
      obtain r s2 where ps: "parse_product_listing net urljoin soup ?s1 = (r, s2)"
        by (cases "parse_product_listing net urljoin soup ?s1")
      show ?thesis
      proof (cases "\<exists>products. r = Inr products \<and> products \<noteq> []")
        case False
        then have stop: "r = Inr [] \<or> (\<exists>e. r = Inl e)"
          by (cases r) auto
        then have "scrape_loop net urljoin cat max_pages page s =
            (case r of Inl e \<Rightarrow> Inl e | Inr products \<Rightarrow> Inr (), s2)"
          using turn Some ps by auto
        then show ?thesis
          using "1.prems"(3) [OF le refl Some ps stop] by simp
      next
        case True
        then obtain products where p: "r = Inr products" "products \<noteq> []"
          by blast
        let ?s3 = "s2\<lparr>scraped_data := scraped_data s2 @ products\<rparr>"
        have step: "scrape_loop net urljoin cat max_pages page s =
            scrape_loop net urljoin cat max_pages (page + 1) ?s3"
          using turn Some ps p by simp
        have "Q (page + 1) ?s3 (scrape_loop net urljoin cat max_pages (page + 1) ?s3)"
        proof (rule "1.IH" [OF le])
          show "(Some soup, ?s1) = fetch_page net Listing ?u s"
            using Some by (simp add: fetch_page_def)
          show "(r, s2) = parse_product_listing net urljoin soup ?s1"
            using ps by simp
          show "r = Inr products"
            by (rule p(1))
          show "products \<noteq> []"
            by (rule p(2))
        qed (simp, (fact "1.prems")+)
        then show ?thesis
          using "1.prems"(4) [OF le refl Some _ p(2) refl] ps p(1) step by simp
      qed
    qed
  qed
qed

lemma scrape_loop_extends:
  "base_url (snd (scrape_loop net urljoin cat max_pages page s)) = base_url s \<and>
   (\<exists>r. fetched (snd (scrape_loop net urljoin cat max_pages page s)) = fetched s @ r) \<and>
   (\<exists>n. scraped_data (snd (scrape_loop net urljoin cat max_pages page s)) = scraped_data s @ n)"
proof (rule scrape_loop_cases
    [where Q = "\<lambda>page s res. base_url (snd res) = base_url s \<and>
       (\<exists>r. fetched (snd res) = fetched s @ r) \<and>
       (\<exists>n. scraped_data (snd res) = scraped_data s @ n)"
      and net = net and urljoin = urljoin and cat = cat and max_pages = max_pages],
    goal_cases)
  case (1 page s)
  show ?case by simp
next
  case (2 page s s1)
  then show ?case by simp
next
  case (3 page s s1 soup r s2)
  have "s2 = snd (parse_product_listing net urljoin soup s1)"
    using 3(4) by simp
  then have "base_url s2 = base_url s1" and "scraped_data s2 = scraped_data s1"
    and "\<exists>ds. fetched s2 = fetched s1 @ map (Pair Detail) ds"
    by (simp_all add: parse_product_listing_base_url parse_product_listing_scraped_data
        parse_product_listing_fetched)
  then show ?case
    using 3(2) by auto
next
  case (4 page s s1 soup products s2 s3)
  have "s2 = snd (parse_product_listing net urljoin soup s1)"
    using 4(4) by simp
  then have "base_url s2 = base_url s1" and "scraped_data s2 = scraped_data s1"
    and "\<exists>ds. fetched s2 = fetched s1 @ map (Pair Detail) ds"
    by (simp_all add: parse_product_listing_base_url parse_product_listing_scraped_data
        parse_product_listing_fetched)
  then have "base_url s3 = base_url s" and "\<exists>r. fetched s3 = fetched s @ r"
    and "\<exists>n. scraped_data s3 = scraped_data s @ n"
    using 4(2) 4(6) by auto
  then show ?case
    using 4(7) by auto
qed

lemma digits_value_snoc:
  "digits_value (ds @ [c]) = 10 * digits_value ds + (of_char c - 48)"
  by (simp add: digits_value_def)

lemma digit_char_value: "d < 10 \<Longrightarrow> (of_char (''0123456789'' ! d) :: nat) - 48 = d"
proof -
  assume "d < 10"
  then have "d \<in> {0, 1, 2, 3, 4, 5, 6, 7, 8, 9}"
    by auto
  then show ?thesis
    by (elim insertE) simp_all
qed

lemma digits_value_str_nat: "digits_value (str_nat n) = n"
proof (induction n rule: str_nat.induct)
  case (1 n)
  show ?case
  proof (cases "n < 10")
    case True
    then show ?thesis
      using digits_value_snoc [of "[]" "''0123456789'' ! n"]
      by (subst str_nat.simps) (simp add: digit_char_value digits_value_def)
  next
    case False
    then have "digits_value (str_nat (n div 10)) = n div 10"
      using "1.IH" by simp
    then show ?thesis
      using False
      by (subst str_nat.simps) (simp add: digits_value_snoc digit_char_value)
  qed
qed

lemma scrape_loop_first_request:
  "page \<le> max_pages \<longrightarrow>
     (\<exists>rest. fetched (snd (scrape_loop net urljoin cat max_pages page s)) =
        fetched s @ (Listing, listing_url (base_url s) cat page) # rest)"
proof (rule scrape_loop_cases
    [where Q = "\<lambda>page s res. page \<le> max_pages \<longrightarrow>
       (\<exists>rest. fetched (snd res) = fetched s @ (Listing, listing_url (base_url s) cat page) # rest)"
      and net = net and urljoin = urljoin and cat = cat and max_pages = max_pages],
    goal_cases)
  case (1 page s)
  then show ?case by simp
next
  case (2 page s s1)
  then show ?case by simp
next
  case (3 page s s1 soup r s2)
  have "s2 = snd (parse_product_listing net urljoin soup s1)"
    using 3(4) by simp
  then have "\<exists>ds. fetched s2 = fetched s1 @ map (Pair Detail) ds"
    by (simp add: parse_product_listing_fetched)
  then show ?case
    using 3(2) by auto
next
  case (4 page s s1 soup products s2 s3)
  have "s2 = snd (parse_product_listing net urljoin soup s1)"
    using 4(4) by simp
  then have "\<exists>ds. fetched s2 = fetched s1 @ map (Pair Detail) ds"
    by (simp add: parse_product_listing_fetched)
  then obtain ds where "fetched s3 = fetched s @ (Listing, listing_url (base_url s) cat page) # map (Pair Detail) ds"
    using 4(2) 4(6) by auto
  moreover obtain r where "fetched (snd (scrape_loop net urljoin cat max_pages (page + 1) s3)) = fetched s3 @ r"
    using scrape_loop_extends by blast
  ultimately show ?case by simp
qed

text \<open>
  C9. The URL of the listing for page \<open>n\<close> is the base, then \<open>/products\<close>, then for a
  category other than \<open>all\<close> a slash and the category, then \<open>?page=\<close> and \<open>n\<close> in
  decimal (reading the digits back gives \<open>n\<close>). Each turn of the loop starts with the
  request for the URL of its page.
\<close>

theorem listing_url_forms:
  "listing_url base ''all'' n = base @ ''/products?page='' @ str_int n \<and>
   (cat \<noteq> ''all'' \<longrightarrow>
      listing_url base cat n = base @ ''/products/'' @ cat @ ''?page='' @ str_int n) \<and>
   (0 \<le> n \<longrightarrow> int (digits_value (str_int n)) = n) \<and>
   (page \<le> max_pages \<longrightarrow>
      (\<exists>rest. fetched (snd (scrape_loop net urljoin cat max_pages page s)) =
         fetched s @ (Listing, listing_url (base_url s) cat page) # rest))"
  using scrape_loop_first_request [of page max_pages net urljoin cat s]
  by (simp add: listing_url_def str_int_def digits_value_str_nat)

theorem listing_url_forms_witness:
  "listing_url ''https://scrape-test-site.vercel.app'' ''all'' 12 =
     ''https://scrape-test-site.vercel.app/products?page=12'' \<and>
   listing_url ''https://scrape-test-site.vercel.app'' ''books'' 3 =
     ''https://scrape-test-site.vercel.app/products/books?page=3'' \<and>
   digits_value ''12'' = 12 \<and>
   (\<exists>rest. fetched (snd (scrape_loop sample_site sample_urljoin ''books'' 3 2 (WebScraper_init ''http://s''))) =
      (Listing, ''http://s/products/books?page=2'') # rest)"
proof -
  let ?b = "''https://scrape-test-site.vercel.app''"
  have s12: "str_int 12 = ''12''" and s3: "str_int 3 = ''3''" and s2: "str_int 2 = ''2''"
    by (simp_all add: str_int_def str_nat.simps)
  have ne: "''books'' \<noteq> ''all''"
    by simp
  have le: "(2::int) \<le> 3" and nn: "(0::int) \<le> 12"
    by simp_all
  note t1 = listing_url_forms [of ?b 12, THEN conjunct1]
  note t2 = listing_url_forms [of ?b 3 "''books''", THEN conjunct2, THEN conjunct1, rule_format, OF ne]
  note t3 = listing_url_forms [of _ 12, THEN conjunct2, THEN conjunct2, THEN conjunct1, rule_format, OF nn]
  note t4 = listing_url_forms [of _ _ "''books''" 2 3 sample_site sample_urljoin "WebScraper_init ''http://s''",
      THEN conjunct2, THEN conjunct2, THEN conjunct2, rule_format, OF le]
  have u: "listing_url (base_url (WebScraper_init ''http://s'')) ''books'' 2 = ''http://s/products/books?page=2''"
    by (simp add: listing_url_def WebScraper_init_def s2)
  show ?thesis
    using t1 t2 t3 t4 unfolding u s12 s3 by (simp add: WebScraper_init_def)
qed

lemma get_product_details_data_indep:
  "fst (get_product_details net u (s\<lparr>scraped_data := d\<rparr>)) = fst (get_product_details net u s)"
  by (simp add: get_product_details_value)

lemma parse_card_data_indep:
  "parse_card net urljoin c (s\<lparr>scraped_data := d\<rparr>) =
     (fst (parse_card net urljoin c s), (snd (parse_card net urljoin c s))\<lparr>scraped_data := d\<rparr>)"
proof (cases "card_fields urljoin (base_url s) c")
  case (Inl e)
  then have "card_fields urljoin (base_url (s\<lparr>scraped_data := d\<rparr>)) c = Inl e"
    by simp
  then show ?thesis
    using Inl by (simp add: parse_card_fail)
next
  case (Inr f)
  then have "card_fields urljoin (base_url (s\<lparr>scraped_data := d\<rparr>)) c = Inr f"
    by simp
  then show ?thesis
    using Inr by (simp add: parse_card_ok get_product_details_data_indep)
qed

lemma parse_cards_data_indep:
  "parse_cards net urljoin cs acc (s\<lparr>scraped_data := d\<rparr>) =
     (fst (parse_cards net urljoin cs acc s),
      (snd (parse_cards net urljoin cs acc s))\<lparr>scraped_data := d\<rparr>)"
proof (induction cs arbitrary: acc s)
  case Nil
  show ?case by simp
next
  case (Cons c cs)
  obtain r s' where pc: "parse_card net urljoin c s = (r, s')"
    by (cases "parse_card net urljoin c s")
  then have pd: "parse_card net urljoin c (s\<lparr>scraped_data := d\<rparr>) = (r, s'\<lparr>scraped_data := d\<rparr>)"
    by (simp add: parse_card_data_indep)
  show ?case
    using pc pd Cons.IH by (cases r) simp_all
qed

lemma parse_product_listing_data_indep:
  "parse_product_listing net urljoin soup (s\<lparr>scraped_data := d\<rparr>) =
     (fst (parse_product_listing net urljoin soup s),
      (snd (parse_product_listing net urljoin soup s))\<lparr>scraped_data := d\<rparr>)"
  by (simp add: parse_product_listing_def parse_cards_data_indep)

text \<open>
  Running the loop on a scraper that already holds the records \<open>d\<close> gives the same
  outcome and the same requests as on any other list of records; the records found are
  put behind \<open>d\<close>.
\<close>

lemma scrape_loop_data_indep:
  "\<forall>d. scrape_loop net urljoin cat max_pages page (s\<lparr>scraped_data := d\<rparr>) =
     (fst (scrape_loop net urljoin cat max_pages page s),
      (snd (scrape_loop net urljoin cat max_pages page s))
        \<lparr>scraped_data := d @ drop (length (scraped_data s))
            (scraped_data (snd (scrape_loop net urljoin cat max_pages page s)))\<rparr>)"
proof (rule scrape_loop_cases
    [where Q = "\<lambda>page s res. \<forall>d. scrape_loop net urljoin cat max_pages page (s\<lparr>scraped_data := d\<rparr>) =
       (fst res, (snd res)\<lparr>scraped_data := d @ drop (length (scraped_data s)) (scraped_data (snd res))\<rparr>)"
      and net = net and urljoin = urljoin and cat = cat and max_pages = max_pages],
    goal_cases)
  case (1 page s)
  then show ?case
    by (simp add: scrape_loop_done)
next
  case (2 page s s1)
  show ?case
  proof
    fix d
    show "scrape_loop net urljoin cat max_pages page (s\<lparr>scraped_data := d\<rparr>) =
        (fst (Inr (), s1), (snd (Inr (), s1))\<lparr>scraped_data :=
           d @ drop (length (scraped_data s)) (scraped_data (snd (Inr (), s1)))\<rparr>)"
      using scrape_loop_turn [OF 2(1) refl, of net urljoin cat "s\<lparr>scraped_data := d\<rparr>"] 2(2) 2(3)
      by simp
  qed
next
  case (3 page s s1 soup r s2)
  have sd: "scraped_data s2 = scraped_data s"
    using parse_product_listing_scraped_data [of net urljoin soup s1] 3(2) 3(4) by simp
  show ?case
  proof
    fix d
    let ?s1d = "(s\<lparr>scraped_data := d\<rparr>)\<lparr>fetched := fetched (s\<lparr>scraped_data := d\<rparr>) @
        [(Listing, listing_url (base_url (s\<lparr>scraped_data := d\<rparr>)) cat page)]\<rparr>"
    have e: "?s1d = s1\<lparr>scraped_data := d\<rparr>"
      using 3(2) by simp
    have p: "parse_product_listing net urljoin soup ?s1d = (r, s2\<lparr>scraped_data := d\<rparr>)"
      unfolding e using 3(4) by (simp add: parse_product_listing_data_indep)
    show "scrape_loop net urljoin cat max_pages page (s\<lparr>scraped_data := d\<rparr>) =
        (fst (case r of Inl e \<Rightarrow> Inl e | Inr products \<Rightarrow> Inr (), s2),
         (snd (case r of Inl e \<Rightarrow> Inl e | Inr products \<Rightarrow> Inr (), s2))\<lparr>scraped_data :=
           d @ drop (length (scraped_data s))
             (scraped_data (snd (case r of Inl e \<Rightarrow> Inl e | Inr products \<Rightarrow> Inr (), s2)))\<rparr>)"
      using scrape_loop_turn [OF 3(1) refl, of net urljoin cat "s\<lparr>scraped_data := d\<rparr>"] 3(3) 3(5) p sd
      by auto
  qed
next
  case (4 page s s1 soup products s2 s3)
  have sd: "scraped_data s2 = scraped_data s"
    using parse_product_listing_scraped_data [of net urljoin soup s1] 4(2) 4(4) by simp
  let ?res = "scrape_loop net urljoin cat max_pages (page + 1) s3"
  obtain n where n: "scraped_data (snd ?res) = scraped_data s3 @ n"
    using scrape_loop_extends by blast
  have sd3: "scraped_data s3 = scraped_data s @ products"
    using sd 4(6) by simp
  show ?case
  proof
    fix d
    let ?s1d = "(s\<lparr>scraped_data := d\<rparr>)\<lparr>fetched := fetched (s\<lparr>scraped_data := d\<rparr>) @
        [(Listing, listing_url (base_url (s\<lparr>scraped_data := d\<rparr>)) cat page)]\<rparr>"
    have e: "?s1d = s1\<lparr>scraped_data := d\<rparr>"
      using 4(2) by simp
    have p: "parse_product_listing net urljoin soup ?s1d = (Inr products, s2\<lparr>scraped_data := d\<rparr>)"
      unfolding e using 4(4) by (simp add: parse_product_listing_data_indep)
    have s3d: "(s2\<lparr>scraped_data := d\<rparr>)\<lparr>scraped_data := scraped_data (s2\<lparr>scraped_data := d\<rparr>) @ products\<rparr> =
        s3\<lparr>scraped_data := d @ products\<rparr>"
      using 4(6) by simp
    have "scrape_loop net urljoin cat max_pages page (s\<lparr>scraped_data := d\<rparr>) =
        scrape_loop net urljoin cat max_pages (page + 1) (s3\<lparr>scraped_data := d @ products\<rparr>)"
      using scrape_loop_turn [OF 4(1) refl, of net urljoin cat "s\<lparr>scraped_data := d\<rparr>"] 4(3) 4(5) p s3d
      by simp
    also have "\<dots> = (fst ?res, (snd ?res)\<lparr>scraped_data :=
        (d @ products) @ drop (length (scraped_data s3)) (scraped_data (snd ?res))\<rparr>)"
      using 4(7) by blast
    also have "\<dots> = (fst ?res, (snd ?res)\<lparr>scraped_data :=
        d @ drop (length (scraped_data s)) (scraped_data (snd ?res))\<rparr>)"
      using n sd3 by simp
    finally show "scrape_loop net urljoin cat max_pages page (s\<lparr>scraped_data := d\<rparr>) =
        (fst ?res, (snd ?res)\<lparr>scraped_data :=
           d @ drop (length (scraped_data s)) (scraped_data (snd ?res))\<rparr>)" .
  qed
qed

lemma scrape_loop_collects:
  "scraped_data (snd (scrape_loop net urljoin cat max_pages page s)) =
     scraped_data s @
     scraped_data (snd (scrape_loop net urljoin cat max_pages page (s\<lparr>scraped_data := []\<rparr>)))"
proof -
  let ?res = "scrape_loop net urljoin cat max_pages page s"
  obtain n where n: "scraped_data (snd ?res) = scraped_data s @ n"
    using scrape_loop_extends by blast
  have "scrape_loop net urljoin cat max_pages page (s\<lparr>scraped_data := []\<rparr>) =
      (fst ?res, (snd ?res)\<lparr>scraped_data := [] @ drop (length (scraped_data s)) (scraped_data (snd ?res))\<rparr>)"
    using scrape_loop_data_indep by blast
  then have "scraped_data (snd (scrape_loop net urljoin cat max_pages page (s\<lparr>scraped_data := []\<rparr>))) = n"
    using n by simp
  then show ?thesis
    using n by simp
qed

lemma sample_run_from:
  "scrape_products sample_site sample_urljoin ''all'' 3
     \<lparr>base_url = ''http://s'', scraped_data = d, fetched = h\<rparr> =
   (Inr (),
    \<lparr>base_url = ''http://s'', scraped_data = d @ [widget_record, gadget_record, gizmo_record],
     fetched = h @ [(Listing, ''http://s/products?page=1''), (Detail, ''http://s/p/1''), (Detail, ''http://s/p/2''),
                (Listing, ''http://s/products?page=2''), (Detail, ''http://s/p/3''),
                (Listing, ''http://s/products?page=3'')]\<rparr>)"
  by (simp add: scrape_products_def scrape_loop.simps sample_urls fetch_page_def sample_site_def
      parse_product_listing_def listing_page_def sample_page1 sample_page2
      parse_cards_Nil del: parse_cards.simps)

text \<open>
  C5 (as amended). The list of records is created empty when the scraper is constructed,
  not at the start of a call of \<open>scrape_products\<close>. A call keeps the records the scraper
  holds and puts behind them exactly the records that the same call collects on a scraper
  without records; so only the first call on a scraper returns just its own records.
  During the run the list only grows at its end: from every turn of the loop on, the
  list at the end of the run is the list at that turn with records appended, and neither
  a request nor the parsing of a page changes it.
\<close>

theorem scraped_data_append_only:
  "scraped_data (WebScraper_init base) = [] \<and>
   scraped_data (snd (scrape_products net urljoin cat max_pages s)) =
     scraped_data s @
     scraped_data (snd (scrape_products net urljoin cat max_pages (s\<lparr>scraped_data := []\<rparr>))) \<and>
   (\<exists>new. scraped_data (snd (scrape_loop net urljoin cat max_pages page s)) =
      scraped_data s @ new) \<and>
   scraped_data (snd (fetch_page net who u s)) = scraped_data s \<and>
   scraped_data (snd (parse_product_listing net urljoin soup s)) = scraped_data s"
proof (intro conjI)
  show "scraped_data (WebScraper_init base) = []"
    by (simp add: WebScraper_init_def)
  show "scraped_data (snd (scrape_products net urljoin cat max_pages s)) =
     scraped_data s @
     scraped_data (snd (scrape_products net urljoin cat max_pages (s\<lparr>scraped_data := []\<rparr>)))"
    unfolding scrape_products_def by (rule scrape_loop_collects)
  show "\<exists>new. scraped_data (snd (scrape_loop net urljoin cat max_pages page s)) =
      scraped_data s @ new"
    using scrape_loop_extends by blast
  show "scraped_data (snd (fetch_page net who u s)) = scraped_data s"
    by (simp add: fetch_page_def)
  show "scraped_data (snd (parse_product_listing net urljoin soup s)) = scraped_data s"
    by (rule parse_product_listing_scraped_data)
qed

theorem scraped_data_append_only_witness:
  "scraped_data (snd (scrape_products sample_site sample_urljoin ''all'' 3
      \<lparr>base_url = ''http://s'', scraped_data = [gizmo_record], fetched = []\<rparr>)) =
     [gizmo_record] @ [widget_record, gadget_record, gizmo_record]"
  using scraped_data_append_only [of "''http://s''" sample_site sample_urljoin "''all''" 3
      "\<lparr>base_url = ''http://s'', scraped_data = [gizmo_record], fetched = []\<rparr>"]
  by (simp add: sample_run_from)

text \<open>
  The claim as stated fails for a second call on the same scraper: the sample site
  yields three records in one call, and after the second call the scraper holds six,
  the three of the first call before the three of the second.
\<close>

theorem second_scrape_keeps_first_records:
  "scraped_data (snd (scrape_products sample_site sample_urljoin ''all'' 3
      (snd (scrape_products sample_site sample_urljoin ''all'' 3 (WebScraper_init ''http://s''))))) =
     [widget_record, gadget_record, gizmo_record, widget_record, gadget_record, gizmo_record]"
  by (simp add: WebScraper_init_def sample_run_from)

section \<open>Prices and skipped cards\<close>

lemma parse_cards_append:
  "parse_cards net urljoin (xs @ ys) acc s =
     (case parse_cards net urljoin xs acc s of
        (Inl e, s1) \<Rightarrow> (Inl e, s1)
      | (Inr acc1, s1) \<Rightarrow> parse_cards net urljoin ys acc1 s1)"
proof (induction xs arbitrary: acc s)
  case Nil
  show ?case by simp
next
  case (Cons c cs)
  obtain r s' where pc: "parse_card net urljoin c s = (r, s')"
    by (cases "parse_card net urljoin c s")
  show ?case
    using pc Cons.IH by (cases r) simp_all
qed

lemma card_fields_bad_price:
  assumes "product_price c = Some e"
    and "py_float (replace_empty CHR ''$'' (strip (el_text e))) = Inl ValueError"
  shows "card_fields urljoin base c = Inl AttributeError \<or>
         card_fields urljoin base c = Inl ValueError"
  using assms
  by (cases "product_name c") (simp_all add: card_fields_def bind_result_def text_of_def)

lemma card_fields_price:
  assumes "card_fields urljoin base c = Inr (n, pv, ds, r, u)"
    and "product_price c = Some e"
  shows "py_float (replace_empty CHR ''$'' (strip (el_text e))) = Inr pv"
  using assms
  by (auto simp add: card_fields_def bind_result_def text_of_def split: option.splits sum.splits)

lemma parse_card_Inr:
  assumes "fst (parse_card net urljoin c s) = Inr p"
  shows "\<exists>n pv ds r u. card_fields urljoin (base_url s) c = Inr (n, pv, ds, r, u) \<and> price p = pv"
proof (cases "card_fields urljoin (base_url s) c")
  case (Inl e)
  then show ?thesis
    using assms by (simp add: parse_card_fail)
next
  case (Inr f)
  obtain n pv ds r u where f: "f = (n, pv, ds, r, u)"
    by (cases f)
  have "p = make_product f (projr (fst (get_product_details net (snd (snd (snd (snd f)))) s)))"
    using assms Inr by (simp add: parse_card_ok)
  then have "price p = pv"
    using f by (simp add: make_product_fields)
  then show ?thesis
    using Inr f by simp
qed

lemma parse_cards_skip_caught:
  assumes "\<And>base. card_fields urljoin base c = Inl AttributeError \<or>
                  card_fields urljoin base c = Inl ValueError"
  shows "parse_cards net urljoin (pre @ c # post) acc s = parse_cards net urljoin (pre @ post) acc s"
proof -
  have step: "parse_cards net urljoin (c # post) acc1 s1 = parse_cards net urljoin post acc1 s1"
    for acc1 s1
    using assms [of "base_url s1"] by (auto simp add: parse_card_fail)
  show ?thesis
    by (simp add: parse_cards_append [of net urljoin pre] step split: prod.split sum.split
        del: parse_cards.simps)
qed

lemma round_19_99: "round_binary64 False 1999 100 = Finite False (5626684784446013 / 2 ^ 48)"
  by (simp add: round_binary64_def pow2_le_def bit_length.simps Let_def)

lemma price_text_dollar: "py_float (replace_empty CHR ''$'' (strip ''$'')) = Inl ValueError"
  by (simp add: replace_empty_def strip_def py_isspace_def float_empty)

text \<open>
  C7. The price text \<open>$19.99\<close> of a card gives, in the record of the card, the float
  19.99: the binary64 number nearest to 1999/100, which is 5626684784446013 / 2^48 and
  lies within half a unit in the last place (2^-49) of it. A card whose price text has
  no number behind the dollar sign (\<open>float\<close> raises ValueError, as it does for \<open>$\<close>)
  is skipped and nothing else: the page gives the same result, records and requests,
  as the page without that card.
\<close>

theorem price_conversion_and_skip:
  "(product_price c = Some e \<and> el_text e = ''$19.99'' \<and>
      fst (parse_card net urljoin c s) = Inr p \<longrightarrow>
      price p = round_binary64 False 1999 100) \<and>
   round_binary64 False 1999 100 = Finite False (5626684784446013 / 2 ^ 48) \<and>
   \<bar>5626684784446013 / 2 ^ 48 - 1999 / 100\<bar> \<le> (1 / 2 ^ 49 :: rat) \<and>
   py_float (replace_empty CHR ''$'' (strip ''$'')) = Inl ValueError \<and>
   (product_price c = Some e \<and>
      py_float (replace_empty CHR ''$'' (strip (el_text e))) = Inl ValueError \<longrightarrow>
      parse_cards net urljoin (pre @ c # post) acc s =
        parse_cards net urljoin (pre @ post) acc s)"
proof (intro conjI impI)
  assume a: "product_price c = Some e \<and> el_text e = ''$19.99'' \<and>
      fst (parse_card net urljoin c s) = Inr p"
  then obtain n pv ds r u
    where f: "card_fields urljoin (base_url s) c = Inr (n, pv, ds, r, u)" and pv: "price p = pv"
    using parse_card_Inr by blast
  have "py_float (replace_empty CHR ''$'' (strip (el_text e))) = Inr pv"
    using card_fields_price [OF f] a by blast
  then have "pv = Finite False (5626684784446013 / 2 ^ 48)"
    using a by (simp add: price_text_19_99)
  then show "price p = round_binary64 False 1999 100"
    using pv by (simp add: round_19_99)
next
  show "round_binary64 False 1999 100 = Finite False (5626684784446013 / 2 ^ 48)"
    by (rule round_19_99)
next
  show "\<bar>5626684784446013 / 2 ^ 48 - 1999 / 100\<bar> \<le> (1 / 2 ^ 49 :: rat)"
    by simp
next
  show "py_float (replace_empty CHR ''$'' (strip ''$'')) = Inl ValueError"
    by (rule price_text_dollar)
next
  assume a: "product_price c = Some e \<and>
      py_float (replace_empty CHR ''$'' (strip (el_text e))) = Inl ValueError"
  show "parse_cards net urljoin (pre @ c # post) acc s =
        parse_cards net urljoin (pre @ post) acc s"
    using a by (intro parse_cards_skip_caught card_fields_bad_price [of c e]) simp_all
qed

theorem price_conversion_and_skip_witness:
  "price widget_record = round_binary64 False 1999 100 \<and>
   parse_cards sample_site sample_urljoin [widget, no_price_body, gadget] [] (WebScraper_init ''http://s'') =
     parse_cards sample_site sample_urljoin [widget, gadget] [] (WebScraper_init ''http://s'') \<and>
   fst (parse_cards sample_site sample_urljoin [widget, no_price_body, gadget] []
          (WebScraper_init ''http://s'')) = Inr [widget_record, gadget_record]"
proof -
  let ?s = "WebScraper_init ''http://s''"
  let ?e = "\<lparr>el_text = ''$19.99'', el_attrs = []\<rparr>"
  let ?d = "\<lparr>el_text = ''$'', el_attrs = []\<rparr>"
  have w: "product_price widget = Some ?e \<and> el_text ?e = ''$19.99'' \<and>
      fst (parse_card sample_site sample_urljoin widget ?s) = Inr widget_record"
    by (simp add: widget_def sample_card_def)
      (simp add: widget_def [symmetric] sample_card_def [symmetric] WebScraper_init_def run_defs
        widget_record_def)
  have b: "product_price no_price_body = Some ?d \<and>
      py_float (replace_empty CHR ''$'' (strip (el_text ?d))) = Inl ValueError"
    by (simp add: no_price_body_def sample_card_def price_text_dollar)
  have 1: "price widget_record = round_binary64 False 1999 100"
    using price_conversion_and_skip [of widget ?e sample_site sample_urljoin ?s widget_record] w
    by blast
  have 2: "parse_cards sample_site sample_urljoin ([widget] @ no_price_body # [gadget]) [] ?s =
      parse_cards sample_site sample_urljoin ([widget] @ [gadget]) [] ?s"
    using price_conversion_and_skip [of no_price_body ?d sample_site sample_urljoin ?s _ "[widget]" "[gadget]" "[]"] b
    by blast
  have 3: "fst (parse_cards sample_site sample_urljoin [widget, no_price_body, gadget] [] ?s) =
      Inr [widget_record, gadget_record]"
    by (simp add: WebScraper_init_def sample_page1 del: parse_cards.simps)
  from 1 2 3 show ?thesis by simp
qed

section \<open>A card that aborts the page\<close>


text \<open>
  C4 fails on the code. A card without a rating element makes \<open>select_one\<close> return
  \<open>None\<close>, the subscript on it raises TypeError, and the \<open>except\<close> clause of the loop
  catches only AttributeError and ValueError: the exception leaves the parser, and the
  well-formed card behind it is never read. The same page without the bad card gives the
  record of the good one. The exception also leaves \<open>scrape_products\<close>, with no record
  collected.
\<close>

theorem missing_rating_element_aborts_page:
  "parse_product_listing sample_site sample_urljoin (listing_page [no_rating, gadget])
     (WebScraper_init ''http://s'') = (Inl TypeError, WebScraper_init ''http://s'') \<and>
   fst (parse_product_listing sample_site sample_urljoin (listing_page [gadget])
     (WebScraper_init ''http://s'')) = Inr [gadget_record] \<and>
   scrape_products (\<lambda>h u. Some (listing_page [no_rating, gadget])) sample_urljoin ''all'' 3
     (WebScraper_init ''http://s'') =
     (Inl TypeError,
      \<lparr>base_url = ''http://s'', scraped_data = [], fetched = [(Listing, ''http://s/products?page=1'')]\<rparr>)"
  by (simp add: parse_product_listing_def listing_page_def WebScraper_init_def run_defs
      gadget_record_def scrape_products_def scrape_loop.simps sample_urls)

section \<open>Requests made while parsing a page\<close>

lemma make_product_url: "url (make_product f d) = snd (snd (snd (snd f)))"
  by (cases f) (simp add: make_product_def)

text \<open>A card either fails without a request, or gives a record after one detail request.\<close>

lemma parse_card_outcome:
  "(\<exists>e. parse_card net urljoin c s = (Inl e, s)) \<or>
   (\<exists>p. parse_card net urljoin c s = (Inr p, s\<lparr>fetched := fetched s @ [(Detail, url p)]\<rparr>))"
proof (cases "card_fields urljoin (base_url s) c")
  case (Inl e)
  then show ?thesis
    by (simp add: parse_card_fail)
next
  case (Inr f)
  then show ?thesis
    by (simp add: parse_card_ok make_product_url)
qed

text \<open>
  The requests that parsing a page makes are detail requests, one for each record it
  builds, in the order of the records and for the URL of the record; a card gives at most
  one of them.
\<close>

lemma parse_cards_requests:
  "\<exists>ps. snd (parse_cards net urljoin cs acc s) =
          s\<lparr>fetched := fetched s @ map (\<lambda>p. (Detail, url p)) ps\<rparr> \<and>
        length ps \<le> length cs \<and>
        (\<forall>acc'. fst (parse_cards net urljoin cs acc s) = Inr acc' \<longrightarrow> acc' = acc @ ps)"
proof (induction cs arbitrary: acc s)
  case Nil
  have "snd (parse_cards net urljoin [] acc s) =
          s\<lparr>fetched := fetched s @ map (\<lambda>p. (Detail, url p)) []\<rparr> \<and>
        length ([] :: product list) \<le> length ([] :: card list) \<and>
        (\<forall>acc'. fst (parse_cards net urljoin [] acc s) = Inr acc' \<longrightarrow> acc' = acc @ [])"
    by simp
  then show ?case by blast
next
  case (Cons c cs)
  let ?goal = "\<lambda>ps. snd (parse_cards net urljoin (c # cs) acc s) =
          s\<lparr>fetched := fetched s @ map (\<lambda>p. (Detail, url p)) ps\<rparr> \<and>
        length ps \<le> length (c # cs) \<and>
        (\<forall>acc'. fst (parse_cards net urljoin (c # cs) acc s) = Inr acc' \<longrightarrow> acc' = acc @ ps)"
  consider (fail) e where "parse_card net urljoin c s = (Inl e, s)"
    | (ok) p where "parse_card net urljoin c s = (Inr p, s\<lparr>fetched := fetched s @ [(Detail, url p)]\<rparr>)"
    using parse_card_outcome by blast
  then show ?case
  proof cases
    case fail
    show ?thesis
    proof (cases "e = AttributeError \<or> e = ValueError")
      case True
      then have step: "parse_cards net urljoin (c # cs) acc s = parse_cards net urljoin cs acc s"
        using fail by auto
      obtain ps where "snd (parse_cards net urljoin cs acc s) =
          s\<lparr>fetched := fetched s @ map (\<lambda>p. (Detail, url p)) ps\<rparr>"
        and "length ps \<le> length cs"
        and "\<forall>acc'. fst (parse_cards net urljoin cs acc s) = Inr acc' \<longrightarrow> acc' = acc @ ps"
        using Cons.IH by blast
      then have "?goal ps"
        using step by simp
      then show ?thesis by blast
    next
      case False
      then have "parse_cards net urljoin (c # cs) acc s = (Inl e, s)"
        using fail by auto
      then have "?goal []"
        by simp
      then show ?thesis by blast
    qed
  next
    case ok
    let ?s' = "s\<lparr>fetched := fetched s @ [(Detail, url p)]\<rparr>"
    have step: "parse_cards net urljoin (c # cs) acc s = parse_cards net urljoin cs (acc @ [p]) ?s'"
      using ok by simp
    obtain ps where a: "snd (parse_cards net urljoin cs (acc @ [p]) ?s') =
          ?s'\<lparr>fetched := fetched ?s' @ map (\<lambda>p. (Detail, url p)) ps\<rparr>"
      and b: "length ps \<le> length cs"
      and c: "\<forall>acc'. fst (parse_cards net urljoin cs (acc @ [p]) ?s') = Inr acc' \<longrightarrow>
                acc' = (acc @ [p]) @ ps"
      using Cons.IH by blast
    have "?goal (p # ps)"
      using step a b c by simp
    then show ?thesis by blast
  qed
qed

lemma parse_product_listing_requests:
  "\<exists>ps. snd (parse_product_listing net urljoin soup s) =
          s\<lparr>fetched := fetched s @ map (\<lambda>p. (Detail, url p)) ps\<rparr> \<and>
        length ps \<le> length (product_cards soup) \<and>
        (\<forall>products. fst (parse_product_listing net urljoin soup s) = Inr products \<longrightarrow>
           products = ps)"
  using parse_cards_requests [of net urljoin "product_cards soup" "[]" s]
  by (simp add: parse_product_listing_def)

lemma parse_product_listing_nothing:
  assumes "fst (parse_product_listing net urljoin soup s) = Inr []"
  shows "parse_product_listing net urljoin soup s = (Inr [], s)"
proof -
  obtain ps where "snd (parse_product_listing net urljoin soup s) =
          s\<lparr>fetched := fetched s @ map (\<lambda>p. (Detail, url p)) ps\<rparr>"
    and "\<forall>products. fst (parse_product_listing net urljoin soup s) = Inr products \<longrightarrow>
           products = ps"
    using parse_product_listing_requests by blast
  then have "snd (parse_product_listing net urljoin soup s) = s"
    using assms by auto
  then show ?thesis
    using assms by (simp add: prod_eq_iff)
qed

lemma detail_fetches_append:
  "detail_fetches (s\<lparr>fetched := fetched s @ map (\<lambda>p. (Detail, url p)) ps\<rparr>) =
     detail_fetches s @ map url ps"
  by (simp add: detail_fetches_def filter_map comp_def)

text \<open>
  When the loop returns normally, the detail requests it has made are one for each record
  it has added, in the order of the records and for the URL of the record.
\<close>

lemma scrape_loop_detail_fetches:
  "fst (scrape_loop net urljoin cat max_pages page s) = Inr () \<longrightarrow>
     detail_fetches (snd (scrape_loop net urljoin cat max_pages page s)) =
       detail_fetches s @
       map url (drop (length (scraped_data s))
         (scraped_data (snd (scrape_loop net urljoin cat max_pages page s))))"
proof (rule scrape_loop_cases
    [where Q = "\<lambda>page s res. fst res = Inr () \<longrightarrow>
       detail_fetches (snd res) =
         detail_fetches s @ map url (drop (length (scraped_data s)) (scraped_data (snd res)))"
      and net = net and urljoin = urljoin and cat = cat and max_pages = max_pages],
    goal_cases)
  case (1 page s)
  show ?case by simp
next
  case (2 page s s1)
  then show ?case
    by (simp add: detail_fetches_def)
next
  case (3 page s s1 soup r s2)
  show ?case
  proof (cases "r = Inr []")
    case True
    then have "s2 = s1"
      using parse_product_listing_nothing [of net urljoin soup s1] 3(4) by simp
    then show ?thesis
      using 3(2) True by (simp add: detail_fetches_def)
  next
    case False
    then obtain e where "r = Inl e"
      using 3(5) by blast
    then show ?thesis by simp
  qed
next
  case (4 page s s1 soup products s2 s3)
  let ?res = "scrape_loop net urljoin cat max_pages (page + 1) s3"
  obtain ps where s2: "s2 = s1\<lparr>fetched := fetched s1 @ map (\<lambda>p. (Detail, url p)) ps\<rparr>"
    and ps: "products = ps"
    using parse_product_listing_requests [of net urljoin soup s1] 4(4) by auto
  have d3: "detail_fetches s3 = detail_fetches s @ map url products"
    using s2 ps 4(2) 4(6) by (simp add: detail_fetches_def filter_map comp_def)
  have sd3: "scraped_data s3 = scraped_data s @ products"
    using s2 4(2) 4(6) by simp
  obtain n where n: "scraped_data (snd ?res) = scraped_data s3 @ n"
    using scrape_loop_extends by blast
  show ?case
  proof
    assume "fst ?res = Inr ()"
    then have "detail_fetches (snd ?res) =
        detail_fetches s3 @ map url (drop (length (scraped_data s3)) (scraped_data (snd ?res)))"
      using 4(7) by blast
    then show "detail_fetches (snd ?res) =
        detail_fetches s @ map url (drop (length (scraped_data s)) (scraped_data (snd ?res)))"
      using d3 sd3 n by simp
  qed
qed

text \<open>
  C3. The loop is defined by recursion on the distance of the page index from the limit,
  so every call returns, also when requests keep failing. The requests for listings that
  a call adds are those for the pages 1 to \<open>k\<close>, each once and in this order, for some
  \<open>k\<close> that is at most the limit: no page is requested a second time, and at most
  \<open>max_pages\<close> listings are requested. A turn whose request fails ends the loop with
  that one request made and nothing else; so does a turn whose page gives no product, be
  it that the page has no product card or that all its cards are skipped. Nothing is
  retried at the level of the cards either: parsing a page makes no request but one
  detail request for each record it builds, at most one for a card, and when the call
  returns normally the detail requests it has added are one for each record it has
  added, in the order of the records, each for the URL of its record.
\<close>

theorem scrape_bounded_no_retry:
  "(\<exists>r s'. scrape_products net urljoin cat max_pages s = (r, s')) \<and>
   (\<exists>k. 0 \<le> k \<and> k \<le> max 0 max_pages \<and>
        listing_fetches (snd (scrape_products net urljoin cat max_pages s)) =
          listing_fetches s @ map (listing_url (base_url s) cat) [1..k]) \<and>
   length (listing_fetches (snd (scrape_products net urljoin cat max_pages s))) \<le>
     length (listing_fetches s) + nat max_pages \<and>
   (page \<le> max_pages \<and>
      net (map snd (fetched s)) (listing_url (base_url s) cat page) = None \<longrightarrow>
      scrape_loop net urljoin cat max_pages page s =
        (Inr (), s\<lparr>fetched := fetched s @ [(Listing, listing_url (base_url s) cat page)]\<rparr>)) \<and>
   (page \<le> max_pages \<and>
      net (map snd (fetched s)) (listing_url (base_url s) cat page) = Some soup \<and>
      product_cards soup = [] \<longrightarrow>
      scrape_loop net urljoin cat max_pages page s =
        (Inr (), s\<lparr>fetched := fetched s @ [(Listing, listing_url (base_url s) cat page)]\<rparr>)) \<and>
   (page \<le> max_pages \<and>
      net (map snd (fetched s)) (listing_url (base_url s) cat page) = Some soup \<and>
      fst (parse_product_listing net urljoin soup
             (s\<lparr>fetched := fetched s @ [(Listing, listing_url (base_url s) cat page)]\<rparr>)) = Inr [] \<longrightarrow>
      scrape_loop net urljoin cat max_pages page s =
        (Inr (), s\<lparr>fetched := fetched s @ [(Listing, listing_url (base_url s) cat page)]\<rparr>)) \<and>
   (\<exists>ps. snd (parse_product_listing net urljoin soup s) =
           s\<lparr>fetched := fetched s @ map (\<lambda>p. (Detail, url p)) ps\<rparr> \<and>
         length ps \<le> length (product_cards soup) \<and>
         (\<forall>products. fst (parse_product_listing net urljoin soup s) = Inr products \<longrightarrow>
            products = ps)) \<and>
   (fst (scrape_products net urljoin cat max_pages s) = Inr () \<longrightarrow>
      detail_fetches (snd (scrape_products net urljoin cat max_pages s)) =
        detail_fetches s @
        map url (drop (length (scraped_data s))
          (scraped_data (snd (scrape_products net urljoin cat max_pages s)))))"
proof -
  let ?s1 = "s\<lparr>fetched := fetched s @ [(Listing, listing_url (base_url s) cat page)]\<rparr>"
  obtain k where k: "0 \<le> k" "k \<le> max 0 max_pages"
    and lk: "listing_fetches (snd (scrape_products net urljoin cat max_pages s)) =
          listing_fetches s @ map (listing_url (base_url s) cat) [1..k]"
    using scrape_loop_listing_fetches [of 1 max_pages net urljoin cat s]
    by (auto simp add: scrape_products_def)
  have len: "length (listing_fetches (snd (scrape_products net urljoin cat max_pages s))) \<le>
      length (listing_fetches s) + nat max_pages"
    using k lk by simp
  have none: "scrape_loop net urljoin cat max_pages page s = (Inr (), ?s1)"
    if "page \<le> max_pages"
      and "net (map snd (fetched s)) (listing_url (base_url s) cat page) = None"
    using scrape_loop_turn [OF that(1) refl, of net urljoin cat s] that(2) by simp
  have noprod: "scrape_loop net urljoin cat max_pages page s = (Inr (), ?s1)"
    if "page \<le> max_pages"
      and "net (map snd (fetched s)) (listing_url (base_url s) cat page) = Some soup"
      and "fst (parse_product_listing net urljoin soup ?s1) = Inr []"
    using scrape_loop_turn [OF that(1) refl, of net urljoin cat s] that(2)
      parse_product_listing_nothing [OF that(3)]
    by simp
  have empty: "scrape_loop net urljoin cat max_pages page s = (Inr (), ?s1)"
    if "page \<le> max_pages"
      and "net (map snd (fetched s)) (listing_url (base_url s) cat page) = Some soup"
      and "product_cards soup = []"
  proof -
    have "fst (parse_product_listing net urljoin soup ?s1) = Inr []"
      using that(3) by (simp add: parse_product_listing_def)
    then show ?thesis
      using noprod that(1) that(2) by blast
  qed
  have det: "fst (scrape_products net urljoin cat max_pages s) = Inr () \<longrightarrow>
      detail_fetches (snd (scrape_products net urljoin cat max_pages s)) =
        detail_fetches s @
        map url (drop (length (scraped_data s))
          (scraped_data (snd (scrape_products net urljoin cat max_pages s))))"
    unfolding scrape_products_def by (rule scrape_loop_detail_fetches)
  have tot: "\<exists>r s'. scrape_products net urljoin cat max_pages s = (r, s')"
    by (simp add: prod_eq_iff)
  have lst: "\<exists>k. 0 \<le> k \<and> k \<le> max 0 max_pages \<and>
        listing_fetches (snd (scrape_products net urljoin cat max_pages s)) =
          listing_fetches s @ map (listing_url (base_url s) cat) [1..k]"
    using k lk by blast
  have none': "page \<le> max_pages \<and>
      net (map snd (fetched s)) (listing_url (base_url s) cat page) = None \<longrightarrow>
      scrape_loop net urljoin cat max_pages page s = (Inr (), ?s1)"
    using none by blast
  have empty': "page \<le> max_pages \<and>
      net (map snd (fetched s)) (listing_url (base_url s) cat page) = Some soup \<and>
      product_cards soup = [] \<longrightarrow>
      scrape_loop net urljoin cat max_pages page s = (Inr (), ?s1)"
    using empty by blast
  have noprod': "page \<le> max_pages \<and>
      net (map snd (fetched s)) (listing_url (base_url s) cat page) = Some soup \<and>
      fst (parse_product_listing net urljoin soup ?s1) = Inr [] \<longrightarrow>
      scrape_loop net urljoin cat max_pages page s = (Inr (), ?s1)"
    using noprod by blast
  note page = parse_product_listing_requests [of net urljoin soup s]
  show ?thesis
    by (intro conjI) (fact tot, fact lst, fact len, fact none', fact empty', fact noprod',
        fact page, fact det)
qed

lemma sample_skipped_page:
  "parse_product_listing (\<lambda>h u. Some (listing_page [no_price_body, no_description])) sample_urljoin
     (listing_page [no_price_body, no_description])
     \<lparr>base_url = ''http://s'', scraped_data = d, fetched = h\<rparr> =
   (Inr [], \<lparr>base_url = ''http://s'', scraped_data = d, fetched = h\<rparr>)"
  by (simp add: parse_product_listing_def listing_page_def parse_card_def
      no_price_body_fields no_description_fields)

theorem scrape_bounded_no_retry_witness:
  "length (listing_fetches (snd (scrape_products sample_site sample_urljoin ''all'' 3
      (WebScraper_init ''http://s'')))) \<le> 3 \<and>
   listing_fetches (snd (scrape_products sample_site sample_urljoin ''all'' 3
      (WebScraper_init ''http://s''))) =
     [''http://s/products?page=1'', ''http://s/products?page=2'', ''http://s/products?page=3''] \<and>
   detail_fetches (snd (scrape_products sample_site sample_urljoin ''all'' 3
      (WebScraper_init ''http://s''))) = [''http://s/p/1'', ''http://s/p/2'', ''http://s/p/3''] \<and>
   scrape_loop sample_site sample_urljoin ''all'' 5 4 (WebScraper_init ''http://s'') =
     (Inr (), \<lparr>base_url = ''http://s'', scraped_data = [],
               fetched = [(Listing, ''http://s/products?page=4'')]\<rparr>) \<and>
   scrape_loop sample_site sample_urljoin ''all'' 5 3 (WebScraper_init ''http://s'') =
     (Inr (), \<lparr>base_url = ''http://s'', scraped_data = [],
               fetched = [(Listing, ''http://s/products?page=3'')]\<rparr>) \<and>
   scrape_loop (\<lambda>h u. Some (listing_page [no_price_body, no_description])) sample_urljoin
       ''all'' 3 1 (WebScraper_init ''http://s'') =
     (Inr (), \<lparr>base_url = ''http://s'', scraped_data = [],
               fetched = [(Listing, ''http://s/products?page=1'')]\<rparr>)"
proof -
  let ?s = "WebScraper_init ''http://s''"
  let ?bad = "\<lambda>(h :: string list) (u :: string). Some (listing_page [no_price_body, no_description])"
  have u4: "listing_url (base_url ?s) ''all'' 4 = ''http://s/products?page=4''"
    and u3: "listing_url (base_url ?s) ''all'' 3 = ''http://s/products?page=3''"
    and u1: "listing_url (base_url ?s) ''all'' 1 = ''http://s/products?page=1''"
    by (simp_all add: WebScraper_init_def listing_url_def str_int_def str_nat.simps)
  have h4: "(4::int) \<le> 5 \<and>
      sample_site (map snd (fetched ?s)) (listing_url (base_url ?s) ''all'' 4) = None"
    unfolding u4 by (simp add: sample_site_def)
  have h3: "(3::int) \<le> 5 \<and>
      sample_site (map snd (fetched ?s)) (listing_url (base_url ?s) ''all'' 3) =
        Some (listing_page []) \<and>
      product_cards (listing_page []) = []"
    unfolding u3 by (simp add: sample_site_def listing_page_def)
  have h1: "(1::int) \<le> 3 \<and>
      ?bad (map snd (fetched ?s)) (listing_url (base_url ?s) ''all'' 1) =
        Some (listing_page [no_price_body, no_description]) \<and>
      fst (parse_product_listing ?bad sample_urljoin (listing_page [no_price_body, no_description])
             (?s\<lparr>fetched := fetched ?s @ [(Listing, listing_url (base_url ?s) ''all'' 1)]\<rparr>)) = Inr []"
    unfolding u1 by (simp add: WebScraper_init_def sample_skipped_page)
  have run: "fst (scrape_products sample_site sample_urljoin ''all'' 3 ?s) = Inr ()"
    by (simp add: WebScraper_init_def sample_run_from)
  have 1: "length (listing_fetches (snd (scrape_products sample_site sample_urljoin ''all'' 3 ?s))) \<le> 3"
    using scrape_bounded_no_retry [of sample_site sample_urljoin "''all''" 3 ?s]
    by (simp add: WebScraper_init_def listing_fetches_def)
  have 2: "listing_fetches (snd (scrape_products sample_site sample_urljoin ''all'' 3 ?s)) =
      [''http://s/products?page=1'', ''http://s/products?page=2'', ''http://s/products?page=3'']"
    by (simp add: WebScraper_init_def sample_run_from listing_fetches_def)
  have "detail_fetches (snd (scrape_products sample_site sample_urljoin ''all'' 3 ?s)) =
        detail_fetches ?s @
        map url (drop (length (scraped_data ?s))
          (scraped_data (snd (scrape_products sample_site sample_urljoin ''all'' 3 ?s))))"
    using scrape_bounded_no_retry [of sample_site sample_urljoin "''all''" 3 ?s] run by blast
  then have 3: "detail_fetches (snd (scrape_products sample_site sample_urljoin ''all'' 3 ?s)) =
      [''http://s/p/1'', ''http://s/p/2'', ''http://s/p/3'']"
    by (simp add: WebScraper_init_def sample_run_from detail_fetches_def
        widget_record_def gadget_record_def gizmo_record_def)
  have 4: "scrape_loop sample_site sample_urljoin ''all'' 5 4 ?s =
      (Inr (), \<lparr>base_url = ''http://s'', scraped_data = [],
                fetched = [(Listing, ''http://s/products?page=4'')]\<rparr>)"
    using scrape_bounded_no_retry [of sample_site sample_urljoin "''all''" 5 ?s 4] h4
    unfolding u4 by (simp add: WebScraper_init_def)
  have 5: "scrape_loop sample_site sample_urljoin ''all'' 5 3 ?s =
      (Inr (), \<lparr>base_url = ''http://s'', scraped_data = [],
                fetched = [(Listing, ''http://s/products?page=3'')]\<rparr>)"
    using scrape_bounded_no_retry [of sample_site sample_urljoin "''all''" 5 ?s 3 "listing_page []"] h3
    unfolding u3 by (simp add: WebScraper_init_def)
  have "scrape_loop ?bad sample_urljoin ''all'' 3 1 ?s =
      (Inr (), ?s\<lparr>fetched := fetched ?s @ [(Listing, listing_url (base_url ?s) ''all'' 1)]\<rparr>)"
    using scrape_bounded_no_retry [of ?bad sample_urljoin "''all''" 3 ?s 1
        "listing_page [no_price_body, no_description]"] h1
    by blast
  then have 6: "scrape_loop ?bad sample_urljoin ''all'' 3 1 ?s =
      (Inr (), \<lparr>base_url = ''http://s'', scraped_data = [],
                fetched = [(Listing, ''http://s/products?page=1'')]\<rparr>)"
    unfolding u1 by (simp add: WebScraper_init_def)
  from 1 2 3 4 5 6 show ?thesis by blast
qed

section \<open>Which cards give a record\<close>





end
